theory Spec2Isabelle
  imports Main "HOL-Library.Word" "HOL-Library.AList"
begin

section \<open>Data model of the auto-trader\<close>

text \<open>
  The embedding follows \<^verbatim>\<open>src/strategy/autotrader.cc\<close> and its header. The target is
  an LP64 platform: \<^verbatim>\<open>unsigned long\<close> and \<^verbatim>\<open>signed long\<close> are 64-bit, \<^verbatim>\<open>unsigned int\<close>
  is 32-bit. A signed field is stored as a word and read with \<open>sint\<close>; the compound
  assignments of the source that mix signed and unsigned operands wrap modulo \<open>2 ^ 64\<close>,
  which is what word arithmetic does. Purely signed arithmetic (the placement gates,
  \<^verbatim>\<open>+= LOT_SIZE\<close>) wraps in the model too; in C++ its overflow is undefined, and the
  risk invariant below keeps the values far from it.
\<close>

type_synonym ulong = "64 word"
type_synonym slong = "64 word"
type_synonym uint = "32 word"

record Order =
  price :: ulong
  remainingVolume :: ulong
  filledVolume :: ulong
  cancelling :: bool

datatype Instrument = FUTURE | ETF

datatype Side = SELL | BUY

datatype Lifespan = FILL_AND_KILL | GOOD_FOR_DAY

text \<open>The three requests the engine sends to the exchange session, in the order sent.\<close>

datatype request =
  SendCancelOrder ulong
| SendInsertOrder ulong Side ulong ulong Lifespan
| SendHedgeOrder ulong Side ulong ulong

text \<open>
  \<^verbatim>\<open>std::array<unsigned long, TOP_LEVEL_COUNT>\<close>: five levels; the code reads index 0 only.
\<close>

datatype 'a array5 = Array5 'a 'a 'a 'a 'a

fun at0 :: "'a array5 \<Rightarrow> 'a" where
  "at0 (Array5 a b c d e) = a"

text \<open>
  \<^verbatim>\<open>MAXIMUM_ASK\<close> and \<^verbatim>\<open>MINIMUM_BID\<close> come from \<^verbatim>\<open>ready_trader_go/types.h\<close>, a header of
  the exchange library and not of this repository: they are parameters of the model.
  The enumerations \<^verbatim>\<open>Instrument\<close>, \<^verbatim>\<open>Side\<close> and \<^verbatim>\<open>Lifespan\<close> above are declared there
  too; the code uses their names only. The two hedge prices are \<^verbatim>\<open>constexpr int\<close> in the
  source and reach \<^verbatim>\<open>SendHedgeOrder\<close> as \<^verbatim>\<open>unsigned long\<close>; no claim depends on them.
\<close>

record types_h =
  MAXIMUM_ASK :: ulong
  MINIMUM_BID :: ulong

definition MAX_ORDER_DEPTH :: uint where
  "MAX_ORDER_DEPTH = 5"

definition LOT_SIZE :: ulong where
  "LOT_SIZE = 10"

definition POSITION_LIMIT :: slong where
  "POSITION_LIMIT = 100"

definition TICK_SIZE_IN_CENTS :: ulong where
  "TICK_SIZE_IN_CENTS = 100"

definition MIN_BID_NEARST_TICK :: "types_h \<Rightarrow> ulong" where
  "MIN_BID_NEARST_TICK h =
     (MINIMUM_BID h + TICK_SIZE_IN_CENTS) div TICK_SIZE_IN_CENTS * TICK_SIZE_IN_CENTS"

definition MAX_ASK_NEAREST_TICK :: "types_h \<Rightarrow> ulong" where
  "MAX_ASK_NEAREST_TICK h = MAXIMUM_ASK h div TICK_SIZE_IN_CENTS * TICK_SIZE_IN_CENTS"

definition MAX_ORDER :: "types_h \<Rightarrow> Order" where
  "MAX_ORDER h =
     \<lparr>price = MAXIMUM_ASK h, remainingVolume = 0, filledVolume = 0, cancelling = False\<rparr>"

definition MIN_ORDER :: Order where
  "MIN_ORDER = \<lparr>price = 0, remainingVolume = 0, filledVolume = 0, cancelling = False\<rparr>"

text \<open>
  The private members of \<^verbatim>\<open>class AutoTrader\<close>. The two \<^verbatim>\<open>std::unordered_map\<close>s are
  association lists; the list order is the iteration order of the map, which C++
  leaves open. \<^verbatim>\<open>operator[]\<close> on a new key is \<open>AList.update\<close> (the new entry goes to the
  end, an existing key is overwritten in place), \<^verbatim>\<open>erase\<close> is \<open>AList.delete\<close>. The theorems
  about one handler call hold for every state, so for every order of the lists; the
  invariants below do not depend on the order.
\<close>

type_synonym ledger = "(ulong \<times> Order) list"

record AutoTrader =
  mNextMessageId :: ulong
  mOrderBookSequence :: ulong
  mETFOrderPositionSell :: slong
  mETFOrderPositionBuy :: slong
  mETFOrderAskCount :: uint
  mETFOrderBidCount :: uint
  mETFPosition :: slong
  mAsks :: ledger
  mBids :: ledger

definition initial :: AutoTrader where
  "initial =
     \<lparr>mNextMessageId = 1, mOrderBookSequence = 0,
      mETFOrderPositionSell = 0, mETFOrderPositionBuy = 0,
      mETFOrderAskCount = 0, mETFOrderBidCount = 0,
      mETFPosition = 0, mAsks = [], mBids = []\<rparr>"

section \<open>The repricing passes\<close>

text \<open>
  The locals of the \<^verbatim>\<open>for\<close> loop of \<^verbatim>\<open>RepriceSellOrders\<close>. \<open>largestOrder\<close> is the value
  the pointer \<^verbatim>\<open>largestOrder\<close> points to: the loop writes only to elements it cancels,
  and never takes the address of one of those, so the pointee does not change while
  it is held. The log counter \<^verbatim>\<open>cc\<close> and all \<^verbatim>\<open>RLOG\<close> output are left out.
\<close>

record ask_locals =
  largestOrderId :: ulong
  largestOrder :: Order
  askAlreadyExists :: bool

text \<open>
  One run of the loop over \<^verbatim>\<open>mAsks\<close>: the cancel requests sent, the elements as the
  loop leaves them, and the locals at the end.
\<close>

fun ask_loop :: "ulong \<Rightarrow> ledger \<Rightarrow> ask_locals \<Rightarrow> request list \<times> ledger \<times> ask_locals" where
  "ask_loop newAskPrice [] l = ([], [], l)"
| "ask_loop newAskPrice ((orderId, order) # rest) l =
     (if cancelling order then
        (case ask_loop newAskPrice rest l of
           (sent, asks, l') \<Rightarrow> (sent, (orderId, order) # asks, l'))
      else
        (let l1 = (if price order = newAskPrice then l\<lparr>askAlreadyExists := True\<rparr> else l)
         in if price order < newAskPrice then
              (case ask_loop newAskPrice rest l1 of
                 (sent, asks, l') \<Rightarrow>
                   (SendCancelOrder orderId # sent,
                    (orderId, order\<lparr>cancelling := True\<rparr>) # asks, l'))
            else if price (largestOrder l1) \<le> price order then
              (case ask_loop newAskPrice rest
                      (l1\<lparr>largestOrderId := orderId, largestOrder := order\<rparr>) of
                 (sent, asks, l') \<Rightarrow> (sent, (orderId, order) # asks, l'))
            else
              (case ask_loop newAskPrice rest l1 of
                 (sent, asks, l') \<Rightarrow> (sent, (orderId, order) # asks, l'))))"

definition newAskPrice_of :: "types_h \<Rightarrow> ulong array5 \<Rightarrow> ulong" where
  "newAskPrice_of h askPrices =
     (if at0 askPrices \<noteq> 0 then at0 askPrices + 100 else MAXIMUM_ASK h)"

definition RepriceSellOrders ::
  "types_h \<Rightarrow> ulong array5 \<Rightarrow> ulong array5 \<Rightarrow> AutoTrader \<Rightarrow> request list \<times> AutoTrader" where
  "RepriceSellOrders h askPrices askVolumes s =
     (let newAskPrice = newAskPrice_of h askPrices in
      case ask_loop newAskPrice (mAsks s)
             \<lparr>largestOrderId = 0, largestOrder = MIN_ORDER, askAlreadyExists = False\<rparr> of
        (sent1, asks1, l) \<Rightarrow>
          (let makeRoom = (largestOrderId l \<noteq> 0 \<and> \<not> cancelling (largestOrder l)
                           \<and> MAX_ORDER_DEPTH - 1 \<le> mETFOrderAskCount s);
               asks2 = (if makeRoom
                        then AList.map_entry (largestOrderId l) (\<lambda>order. order\<lparr>cancelling := True\<rparr>) asks1
                        else asks1);
               sent2 = (if makeRoom then sent1 @ [SendCancelOrder (largestOrderId l)] else sent1);
               s2 = s\<lparr>mAsks := asks2\<rparr>
           in if askAlreadyExists l
                 \<or> word_sless (mETFPosition s - mETFOrderPositionSell s - LOT_SIZE) (- POSITION_LIMIT)
                 \<or> MAX_ORDER_DEPTH \<le> mETFOrderAskCount s
                 \<or> at0 askPrices = 0
              then (sent2, s2)
              else
                (let orderId = mNextMessageId s in
                 (sent2 @ [SendInsertOrder orderId SELL newAskPrice LOT_SIZE GOOD_FOR_DAY],
                  s2\<lparr>mNextMessageId := mNextMessageId s + 1,
                     mETFOrderAskCount := mETFOrderAskCount s + 1,
                     mETFOrderPositionSell := mETFOrderPositionSell s + LOT_SIZE,
                     mAsks := AList.update orderId
                                \<lparr>price = newAskPrice, remainingVolume = LOT_SIZE,
                                 filledVolume = 0, cancelling = False\<rparr> asks2\<rparr>))))"

text \<open>The same for \<^verbatim>\<open>RepriceBuyOrders\<close>, whose comparisons point the other way.\<close>

record bid_locals =
  smallestOrderId :: ulong
  smallestOrder :: Order
  bidAlreadyExists :: bool

fun bid_loop :: "ulong \<Rightarrow> ledger \<Rightarrow> bid_locals \<Rightarrow> request list \<times> ledger \<times> bid_locals" where
  "bid_loop newBidPrice [] l = ([], [], l)"
| "bid_loop newBidPrice ((orderId, order) # rest) l =
     (if cancelling order then
        (case bid_loop newBidPrice rest l of
           (sent, bids, l') \<Rightarrow> (sent, (orderId, order) # bids, l'))
      else
        (let l1 = (if price order = newBidPrice then l\<lparr>bidAlreadyExists := True\<rparr> else l)
         in if newBidPrice < price order then
              (case bid_loop newBidPrice rest l1 of
                 (sent, bids, l') \<Rightarrow>
                   (SendCancelOrder orderId # sent,
                    (orderId, order\<lparr>cancelling := True\<rparr>) # bids, l'))
            else if price order \<le> price (smallestOrder l1) then
              (case bid_loop newBidPrice rest
                      (l1\<lparr>smallestOrderId := orderId, smallestOrder := order\<rparr>) of
                 (sent, bids, l') \<Rightarrow> (sent, (orderId, order) # bids, l'))
            else
              (case bid_loop newBidPrice rest l1 of
                 (sent, bids, l') \<Rightarrow> (sent, (orderId, order) # bids, l'))))"

definition newBidPrice_of :: "ulong array5 \<Rightarrow> ulong" where
  "newBidPrice_of bidPrices = (if at0 bidPrices \<noteq> 0 then at0 bidPrices - 100 else 0)"

definition RepriceBuyOrders ::
  "types_h \<Rightarrow> ulong array5 \<Rightarrow> ulong array5 \<Rightarrow> AutoTrader \<Rightarrow> request list \<times> AutoTrader" where
  "RepriceBuyOrders h bidPrices bidVolumes s =
     (let newBidPrice = newBidPrice_of bidPrices in
      case bid_loop newBidPrice (mBids s)
             \<lparr>smallestOrderId = 0, smallestOrder = MAX_ORDER h, bidAlreadyExists = False\<rparr> of
        (sent1, bids1, l) \<Rightarrow>
          (let makeRoom = (smallestOrderId l \<noteq> 0 \<and> \<not> cancelling (smallestOrder l)
                           \<and> MAX_ORDER_DEPTH - 1 \<le> mETFOrderBidCount s);
               bids2 = (if makeRoom
                        then AList.map_entry (smallestOrderId l) (\<lambda>order. order\<lparr>cancelling := True\<rparr>) bids1
                        else bids1);
               sent2 = (if makeRoom then sent1 @ [SendCancelOrder (smallestOrderId l)] else sent1);
               s2 = s\<lparr>mBids := bids2\<rparr>
           in if bidAlreadyExists l
                 \<or> word_sless POSITION_LIMIT (mETFPosition s + mETFOrderPositionBuy s + LOT_SIZE)
                 \<or> MAX_ORDER_DEPTH \<le> mETFOrderBidCount s
                 \<or> at0 bidPrices = 0
              then (sent2, s2)
              else
                (let orderId = mNextMessageId s in
                 (sent2 @ [SendInsertOrder orderId BUY newBidPrice LOT_SIZE GOOD_FOR_DAY],
                  s2\<lparr>mNextMessageId := mNextMessageId s + 1,
                     mETFOrderBidCount := mETFOrderBidCount s + 1,
                     mETFOrderPositionBuy := mETFOrderPositionBuy s + LOT_SIZE,
                     mBids := AList.update orderId
                                \<lparr>price = newBidPrice, remainingVolume = LOT_SIZE,
                                 filledVolume = 0, cancelling = False\<rparr> bids2\<rparr>))))"

section \<open>The message handlers\<close>

definition OrderBookMessageHandler ::
  "types_h \<Rightarrow> Instrument \<Rightarrow> ulong \<Rightarrow> ulong array5 \<Rightarrow> ulong array5 \<Rightarrow> ulong array5 \<Rightarrow> ulong array5
     \<Rightarrow> AutoTrader \<Rightarrow> request list \<times> AutoTrader" where
  "OrderBookMessageHandler h instrument sequenceNumber askPrices askVolumes bidPrices bidVolumes s =
     (if sequenceNumber \<le> mOrderBookSequence s then ([], s)
      else
        (let s1 = s\<lparr>mOrderBookSequence := sequenceNumber\<rparr> in
         if instrument \<noteq> FUTURE then ([], s1)
         else
           (case RepriceSellOrders h askPrices askVolumes s1 of
              (sentA, s2) \<Rightarrow>
                (case RepriceBuyOrders h bidPrices bidVolumes s2 of
                   (sentB, s3) \<Rightarrow> (sentA @ sentB, s3)))))"

text \<open>
  The body of \<^verbatim>\<open>OrderStatusMessageHandler\<close> once the side is known and
  \<^verbatim>\<open>Order& order = sideMap[clientOrderId]\<close> is bound. \<open>dFilled\<close> and \<open>dRemaining\<close> are
  \<^verbatim>\<open>unsigned long\<close>, so \<^verbatim>\<open>dFilled > 0\<close> is an unsigned comparison.
\<close>

definition apply_status ::
  "types_h \<Rightarrow> bool \<Rightarrow> ulong \<Rightarrow> Order \<Rightarrow> ulong \<Rightarrow> ulong \<Rightarrow> AutoTrader \<Rightarrow> request list \<times> AutoTrader" where
  "apply_status h isSellOrder clientOrderId order fillVolume remVolume s =
     (let sideMap = (if isSellOrder then mAsks s else mBids s);
          dFilled = fillVolume - filledVolume order;
          sent = (if 0 < dFilled
                  then [SendHedgeOrder (mNextMessageId s) (if isSellOrder then BUY else SELL)
                          (if isSellOrder then MAX_ASK_NEAREST_TICK h else MIN_BID_NEARST_TICK h)
                          dFilled]
                  else []);
          s1 = (if 0 < dFilled
                then s\<lparr>mETFPosition := mETFPosition s + (if isSellOrder then - dFilled else dFilled),
                       mNextMessageId := mNextMessageId s + 1\<rparr>
                else s);
          dRemaining = remainingVolume order - remVolume;
          s2 = (if isSellOrder
                then s1\<lparr>mETFOrderPositionSell := mETFOrderPositionSell s1 - dRemaining\<rparr>
                else s1\<lparr>mETFOrderPositionBuy := mETFOrderPositionBuy s1 - dRemaining\<rparr>);
          sideMap' = (if 0 < remVolume
                      then AList.update clientOrderId
                             (order\<lparr>remainingVolume := remVolume, filledVolume := fillVolume\<rparr>) sideMap
                      else AList.delete clientOrderId sideMap);
          s3 = (if 0 < remVolume then s2
                else if isSellOrder
                then s2\<lparr>mETFOrderAskCount := mETFOrderAskCount s2 - 1\<rparr>
                else s2\<lparr>mETFOrderBidCount := mETFOrderBidCount s2 - 1\<rparr>)
      in (sent, if isSellOrder then s3\<lparr>mAsks := sideMap'\<rparr> else s3\<lparr>mBids := sideMap'\<rparr>))"

definition OrderStatusMessageHandler ::
  "types_h \<Rightarrow> ulong \<Rightarrow> ulong \<Rightarrow> ulong \<Rightarrow> slong \<Rightarrow> AutoTrader \<Rightarrow> request list \<times> AutoTrader" where
  "OrderStatusMessageHandler h clientOrderId fillVolume remVolume fees s =
     (case map_of (mAsks s) clientOrderId of
        Some order \<Rightarrow> apply_status h True clientOrderId order fillVolume remVolume s
      | None \<Rightarrow>
          (case map_of (mBids s) clientOrderId of
             Some order \<Rightarrow> apply_status h False clientOrderId order fillVolume remVolume s
           | None \<Rightarrow> ([], s)))"

definition ErrorMessageHandler ::
  "types_h \<Rightarrow> ulong \<Rightarrow> string \<Rightarrow> AutoTrader \<Rightarrow> request list \<times> AutoTrader" where
  "ErrorMessageHandler h clientOrderId errorMessage s =
     (if clientOrderId \<noteq> 0
         \<and> (map_of (mAsks s) clientOrderId \<noteq> None \<or> map_of (mBids s) clientOrderId \<noteq> None)
      then OrderStatusMessageHandler h clientOrderId 0 0 0 s
      else ([], s))"

text \<open>
  The events the session delivers. The hedge-filled, order-filled and trade-tick
  handlers only write to the log.
\<close>

datatype event =
  OrderBook Instrument ulong "ulong array5" "ulong array5" "ulong array5" "ulong array5"
| OrderStatus ulong ulong ulong slong
| Error ulong string
| HedgeFilled ulong ulong ulong
| OrderFilled ulong ulong ulong
| TradeTicks Instrument ulong "ulong array5" "ulong array5" "ulong array5" "ulong array5"

fun handle :: "types_h \<Rightarrow> event \<Rightarrow> AutoTrader \<Rightarrow> request list \<times> AutoTrader" where
  "handle h (OrderBook i n ap av bp bv) s = OrderBookMessageHandler h i n ap av bp bv s"
| "handle h (OrderStatus c f r fees) s = OrderStatusMessageHandler h c f r fees s"
| "handle h (Error c m) s = ErrorMessageHandler h c m s"
| "handle h (HedgeFilled c p v) s = ([], s)"
| "handle h (OrderFilled c p v) s = ([], s)"
| "handle h (TradeTicks i n ap av bp bv) s = ([], s)"

text \<open>Delivering a list of events one at a time: all requests sent, and the final state.\<close>

fun run :: "types_h \<Rightarrow> event list \<Rightarrow> AutoTrader \<Rightarrow> request list \<times> AutoTrader" where
  "run h [] s = ([], s)"
| "run h (e # es) s =
     (case handle h e s of (sent, s') \<Rightarrow>
        (case run h es s' of (sent', s'') \<Rightarrow> (sent @ sent', s'')))"

section \<open>Notions used in the statements\<close>

text \<open>
  What one run of a loop does to an element: a live sell order priced below the target,
  or a live buy order priced above it, is pulled (cancelled and flagged).
\<close>

definition ask_pulled :: "ulong \<Rightarrow> ulong \<times> Order \<Rightarrow> bool" where
  "ask_pulled t e = (\<not> cancelling (snd e) \<and> price (snd e) < t)"

definition bid_pulled :: "ulong \<Rightarrow> ulong \<times> Order \<Rightarrow> bool" where
  "bid_pulled t e = (\<not> cancelling (snd e) \<and> t < price (snd e))"

definition live_at :: "ulong \<Rightarrow> ulong \<times> Order \<Rightarrow> bool" where
  "live_at t e = (\<not> cancelling (snd e) \<and> price (snd e) = t)"

definition mark :: "(ulong \<times> Order \<Rightarrow> bool) \<Rightarrow> ulong \<times> Order \<Rightarrow> ulong \<times> Order" where
  "mark p e = (if p e then (fst e, (snd e)\<lparr>cancelling := True\<rparr>) else e)"

text \<open>
  Concrete inputs on which the theorems are run: values for the two limits of the
  exchange library (the theorems hold for every \<open>h\<close>), a book with one level, and
  states with resting quotes.
\<close>

definition rtg_limits :: types_h where
  "rtg_limits = \<lparr>MAXIMUM_ASK = 2147483647, MINIMUM_BID = 1\<rparr>"

definition top_only :: "ulong \<Rightarrow> ulong array5" where
  "top_only p = Array5 p 0 0 0 0"

definition quote :: "ulong \<Rightarrow> Order" where
  "quote p = \<lparr>price = p, remainingVolume = 10, filledVolume = 0, cancelling = False\<rparr>"

definition two_quotes :: AutoTrader where
  "two_quotes =
     \<lparr>mNextMessageId = 3, mOrderBookSequence = 1,
      mETFOrderPositionSell = 10, mETFOrderPositionBuy = 10,
      mETFOrderAskCount = 1, mETFOrderBidCount = 1,
      mETFPosition = 0, mAsks = [(1, quote 1100)], mBids = [(2, quote 800)]\<rparr>"

definition half_bought :: AutoTrader where
  "half_bought =
     \<lparr>mNextMessageId = 4, mOrderBookSequence = 1,
      mETFOrderPositionSell = 10, mETFOrderPositionBuy = 5,
      mETFOrderAskCount = 1, mETFOrderBidCount = 1,
      mETFPosition = 5, mAsks = [(1, quote 1100)],
      mBids = [(2, \<lparr>price = 800, remainingVolume = 5, filledVolume = 5, cancelling = False\<rparr>)]\<rparr>"

text \<open>An order without its \<open>cancelling\<close> flag: a repricing pass changes nothing else.\<close>

definition unflag :: "ulong \<times> Order \<Rightarrow> ulong \<times> ulong \<times> ulong \<times> ulong" where
  "unflag e = (fst e, price (snd e), remainingVolume (snd e), filledVolume (snd e))"

text \<open>
  The depth invariant: on each side the ledger holds no more orders than the counter
  says, the counter is at most 5, and no order id occurs twice in a ledger (so the
  length of the list is the size of the map).
\<close>

definition depth_ok :: "AutoTrader \<Rightarrow> bool" where
  "depth_ok s =
     (length (mAsks s) \<le> unat (mETFOrderAskCount s) \<and> unat (mETFOrderAskCount s) \<le> 5
      \<and> length (mBids s) \<le> unat (mETFOrderBidCount s) \<and> unat (mETFOrderBidCount s) \<le> 5
      \<and> distinct (map fst (mAsks s)) \<and> distinct (map fst (mBids s)))"

text \<open>
  The volume still resting in a ledger, and the risk invariant: each committed-volume
  counter covers the volume resting on its side, and the two inequalities of the
  position limit hold. Signed fields are read with \<open>sint\<close>.
\<close>

definition resting :: "ledger \<Rightarrow> nat" where
  "resting al = sum_list (map (\<lambda>e. unat (remainingVolume (snd e))) al)"

definition risk_ok :: "AutoTrader \<Rightarrow> bool" where
  "risk_ok s =
     (int (resting (mAsks s)) \<le> sint (mETFOrderPositionSell s)
      \<and> int (resting (mBids s)) \<le> sint (mETFOrderPositionBuy s)
      \<and> sint (mETFPosition s) + sint (mETFOrderPositionBuy s) \<le> 100
      \<and> - 100 \<le> sint (mETFPosition s) - sint (mETFOrderPositionSell s))"

text \<open>
  A status update that an exchange can send for an order: the fill volume does not go
  down, the remaining volume does not go up, and the newly filled volume is at most
  the volume that stopped resting. An error event is read as the status update
  \<^verbatim>\<open>(0, 0)\<close> that \<^verbatim>\<open>ErrorMessageHandler\<close> makes of it, so it is coherent for an order
  with no recorded fill.
\<close>

definition coherent :: "Order \<Rightarrow> ulong \<Rightarrow> ulong \<Rightarrow> bool" where
  "coherent ord fillVolume remVolume =
     (filledVolume ord \<le> fillVolume \<and> remVolume \<le> remainingVolume ord
      \<and> fillVolume - filledVolume ord \<le> remainingVolume ord - remVolume)"

fun coherent_event :: "AutoTrader \<Rightarrow> event \<Rightarrow> bool" where
  "coherent_event s (OrderStatus c f r fees) =
     (case map_of (mAsks s) c of
        Some ord \<Rightarrow> coherent ord f r
      | None \<Rightarrow> (case map_of (mBids s) c of Some ord \<Rightarrow> coherent ord f r | None \<Rightarrow> True))"
| "coherent_event s (Error c m) =
     (case map_of (mAsks s) c of
        Some ord \<Rightarrow> coherent ord 0 0
      | None \<Rightarrow> (case map_of (mBids s) c of Some ord \<Rightarrow> coherent ord 0 0 | None \<Rightarrow> True))"
| "coherent_event s (OrderBook i n ap av bp bv) = True"
| "coherent_event s (HedgeFilled c p v) = True"
| "coherent_event s (OrderFilled c p v) = True"
| "coherent_event s (TradeTicks i n ap av bp bv) = True"

fun coherent_run :: "types_h \<Rightarrow> AutoTrader \<Rightarrow> event list \<Rightarrow> bool" where
  "coherent_run h s [] = True"
| "coherent_run h s (e # es) = (coherent_event s e \<and> coherent_run h (snd (handle h e s)) es)"

text \<open>
  A run of book updates and coherent status updates: ten buy orders of 10 lots are
  placed and filled one after the other, sell order 1 is filled for 5 of its 10 lots,
  the best ask rises so that order 1 is pulled and sell order 23 takes its place, order
  23 is filled for 5 lots, and one more buy order is placed. The run ends in
  \<open>near_limit\<close>, within the position limit, where sell order 1 is part-filled and its
  cancel is not confirmed yet.
\<close>

definition book :: "ulong \<Rightarrow> ulong \<Rightarrow> event" where
  "book n a = OrderBook FUTURE n (top_only a) (top_only 5) (top_only 900) (top_only 5)"

definition to_the_limit :: "event list" where
  "to_the_limit =
     [book 1 1000, OrderStatus 2 10 0 0, book 2 1000, OrderStatus 4 10 0 0,
      book 3 1000, OrderStatus 6 10 0 0, book 4 1000, OrderStatus 8 10 0 0,
      book 5 1000, OrderStatus 10 10 0 0, book 6 1000, OrderStatus 12 10 0 0,
      book 7 1000, OrderStatus 14 10 0 0, book 8 1000, OrderStatus 16 10 0 0,
      book 9 1000, OrderStatus 18 10 0 0, book 10 1000, OrderStatus 20 10 0 0,
      OrderStatus 1 5 5 0, book 11 1100, OrderStatus 23 5 5 0, book 12 1100]"

definition near_limit :: AutoTrader where
  "near_limit =
     \<lparr>mNextMessageId = 26, mOrderBookSequence = 12,
      mETFOrderPositionSell = 10, mETFOrderPositionBuy = 10,
      mETFOrderAskCount = 2, mETFOrderBidCount = 1,
      mETFPosition = 90,
      mAsks = [(1, \<lparr>price = 1100, remainingVolume = 5, filledVolume = 5, cancelling = True\<rparr>),
               (23, \<lparr>price = 1200, remainingVolume = 5, filledVolume = 5, cancelling = False\<rparr>)],
      mBids = [(25, quote 800)]\<rparr>"


definition buy_settled :: "ulong array5 \<Rightarrow> AutoTrader \<Rightarrow> bool" where
  "buy_settled bp s =
     (filter (bid_pulled (newBidPrice_of bp)) (mBids s) = []
      \<and> \<not> MAX_ORDER_DEPTH - 1 \<le> mETFOrderBidCount s
      \<and> (filter (live_at (newBidPrice_of bp)) (mBids s) \<noteq> []
         \<or> word_sless POSITION_LIMIT (mETFPosition s + mETFOrderPositionBuy s + LOT_SIZE)
         \<or> MAX_ORDER_DEPTH \<le> mETFOrderBidCount s
         \<or> at0 bp = 0))"

text \<open>
  Book updates for the future that report a rising best ask (1000, 1100, 1200, 1300)
  and then repeat the best ask 1300 five more times; no bids.
\<close>

definition ask_update :: "ulong \<Rightarrow> ulong \<Rightarrow> event" where
  "ask_update n p = OrderBook FUTURE n (top_only p) (top_only 5) (top_only 0) (top_only 0)"

definition rising_then_flat :: "event list" where
  "rising_then_flat =
     [ask_update 1 1000, ask_update 2 1100, ask_update 3 1200, ask_update 4 1300,
      ask_update 5 1300, ask_update 6 1300, ask_update 7 1300, ask_update 8 1300,
      ask_update 9 1300]"


text \<open>
  No two live orders of a ledger share a price. The engine inserts an order at a price
  only when no live order is there, so this holds in every state it reaches.
\<close>

definition one_live_per_price :: "ledger \<Rightarrow> bool" where
  "one_live_per_price al = (\<forall>t. length (filter (live_at t) al) \<le> 1)"

text \<open>
  Runs that show what each condition of the amended claim C7 is for, and what its
  conclusion leaves open. Every update is for the future, with the best ask and the
  best bid given.
\<close>

definition touch_update :: "ulong \<Rightarrow> ulong \<Rightarrow> ulong \<Rightarrow> event" where
  "touch_update n a b = OrderBook FUTURE n (top_only a) (top_only 5) (top_only b) (top_only 5)"

definition falling_bids :: "event list" where
  "falling_bids =
     [touch_update 1 1000 2000, touch_update 2 1000 1900, touch_update 3 1000 1800,
      touch_update 4 1000 1700]"

definition sold_out :: "event list" where
  "sold_out =
     [touch_update 1 1000 0, OrderStatus 1 10 0 0, touch_update 2 1000 0, OrderStatus 3 10 0 0,
      touch_update 3 1000 0, OrderStatus 5 10 0 0, touch_update 4 1000 0, OrderStatus 7 10 0 0,
      touch_update 5 1000 0, OrderStatus 9 10 0 0, touch_update 6 1000 0, OrderStatus 11 10 0 0,
      touch_update 7 1000 0, OrderStatus 13 10 0 0, touch_update 8 1000 0, OrderStatus 15 10 0 0,
      touch_update 9 1000 0, OrderStatus 17 10 0 0, touch_update 10 1000 0, OrderStatus 19 10 0 0,
      touch_update 11 1000 0, touch_update 12 1000 0, touch_update 13 1000 0]"

section \<open>What one run of a loop computes\<close>

lemma ask_loop_sent:
  "fst (ask_loop t xs l) = map (\<lambda>e. SendCancelOrder (fst e)) (filter (ask_pulled t) xs)"
  by (induction xs arbitrary: l) (auto simp: ask_pulled_def Let_def case_prod_unfold)

lemma ask_loop_ledger:
  "fst (snd (ask_loop t xs l)) = map (mark (ask_pulled t)) xs"
  by (induction xs arbitrary: l) (auto simp: ask_pulled_def mark_def Let_def case_prod_unfold)

lemma ask_loop_exists:
  "askAlreadyExists (snd (snd (ask_loop t xs l))) = (askAlreadyExists l \<or> (\<exists>e \<in> set xs. live_at t e))"
proof (induction xs arbitrary: l)
  case Nil
  show ?case by simp
next
  case (Cons a xs)
  obtain k ord where a: "a = (k, ord)" by (cases a)
  show ?case unfolding a
    by (simp add: Cons.IH Let_def case_prod_unfold live_at_def)
qed

lemma bid_loop_sent:
  "fst (bid_loop t xs l) = map (\<lambda>e. SendCancelOrder (fst e)) (filter (bid_pulled t) xs)"
  by (induction xs arbitrary: l) (auto simp: bid_pulled_def Let_def case_prod_unfold)

lemma bid_loop_ledger:
  "fst (snd (bid_loop t xs l)) = map (mark (bid_pulled t)) xs"
  by (induction xs arbitrary: l) (auto simp: bid_pulled_def mark_def Let_def case_prod_unfold)

lemma bid_loop_exists:
  "bidAlreadyExists (snd (snd (bid_loop t xs l))) = (bidAlreadyExists l \<or> (\<exists>e \<in> set xs. live_at t e))"
proof (induction xs arbitrary: l)
  case Nil
  show ?case by simp
next
  case (Cons a xs)
  obtain k ord where a: "a = (k, ord)" by (cases a)
  show ?case unfolding a
    by (simp add: Cons.IH Let_def case_prod_unfold live_at_def)
qed

section \<open>What a repricing pass may touch\<close>

lemma map_entry_keys: "map fst (AList.map_entry k f xs) = map fst xs"
  by (induction xs) auto

lemma fst_mark [simp]: "fst (mark p e) = fst e"
  by (simp add: mark_def)

lemma mark_keys: "map fst (map (mark p) xs) = map fst xs"
  by (induction xs) (auto simp: mark_def)

lemma RepriceSellOrders_sent:
  assumes "r \<in> set (fst (RepriceSellOrders h ap av s))"
  shows "(\<exists>c. r = SendCancelOrder c)
         \<or> (r = SendInsertOrder (mNextMessageId s) SELL (newAskPrice_of h ap) LOT_SIZE GOOD_FOR_DAY
            \<and> at0 ap \<noteq> 0)"
  using assms
  by (auto simp: RepriceSellOrders_def Let_def case_prod_unfold ask_loop_sent split: if_splits)

lemma RepriceBuyOrders_sent:
  assumes "r \<in> set (fst (RepriceBuyOrders h bp bv s))"
  shows "(\<exists>c. r = SendCancelOrder c)
         \<or> (r = SendInsertOrder (mNextMessageId s) BUY (newBidPrice_of bp) LOT_SIZE GOOD_FOR_DAY
            \<and> at0 bp \<noteq> 0)"
  using assms
  by (auto simp: RepriceBuyOrders_def Let_def case_prod_unfold bid_loop_sent split: if_splits)

lemma RepriceSellOrders_frame:
  "mBids (snd (RepriceSellOrders h ap av s)) = mBids s"
  "mETFOrderBidCount (snd (RepriceSellOrders h ap av s)) = mETFOrderBidCount s"
  "mETFOrderPositionBuy (snd (RepriceSellOrders h ap av s)) = mETFOrderPositionBuy s"
  "mETFPosition (snd (RepriceSellOrders h ap av s)) = mETFPosition s"
  "mOrderBookSequence (snd (RepriceSellOrders h ap av s)) = mOrderBookSequence s"
  by (simp_all add: RepriceSellOrders_def Let_def case_prod_unfold)

lemma RepriceBuyOrders_frame:
  "mAsks (snd (RepriceBuyOrders h bp bv s)) = mAsks s"
  "mETFOrderAskCount (snd (RepriceBuyOrders h bp bv s)) = mETFOrderAskCount s"
  "mETFOrderPositionSell (snd (RepriceBuyOrders h bp bv s)) = mETFOrderPositionSell s"
  "mETFPosition (snd (RepriceBuyOrders h bp bv s)) = mETFPosition s"
  "mOrderBookSequence (snd (RepriceBuyOrders h bp bv s)) = mOrderBookSequence s"
  by (simp_all add: RepriceBuyOrders_def Let_def case_prod_unfold)

lemma RepriceSellOrders_empty_touch:
  assumes "at0 ap = 0"
  shows "map fst (mAsks (snd (RepriceSellOrders h ap av s))) = map fst (mAsks s)"
    and "mETFOrderAskCount (snd (RepriceSellOrders h ap av s)) = mETFOrderAskCount s"
    and "mETFOrderPositionSell (snd (RepriceSellOrders h ap av s)) = mETFOrderPositionSell s"
    and "mNextMessageId (snd (RepriceSellOrders h ap av s)) = mNextMessageId s"
  using assms
  by (simp_all add: RepriceSellOrders_def Let_def case_prod_unfold ask_loop_ledger
        map_entry_keys mark_keys)

lemma RepriceBuyOrders_empty_touch:
  assumes "at0 bp = 0"
  shows "map fst (mBids (snd (RepriceBuyOrders h bp bv s))) = map fst (mBids s)"
    and "mETFOrderBidCount (snd (RepriceBuyOrders h bp bv s)) = mETFOrderBidCount s"
    and "mETFOrderPositionBuy (snd (RepriceBuyOrders h bp bv s)) = mETFOrderPositionBuy s"
    and "mNextMessageId (snd (RepriceBuyOrders h bp bv s)) = mNextMessageId s"
  using assms
  by (simp_all add: RepriceBuyOrders_def Let_def case_prod_unfold bid_loop_ledger
        map_entry_keys mark_keys)

lemma OrderBookMessageHandler_fresh:
  assumes "mOrderBookSequence s < n"
  shows "OrderBookMessageHandler h FUTURE n ap av bp bv s =
           (fst (RepriceSellOrders h ap av (s\<lparr>mOrderBookSequence := n\<rparr>))
            @ fst (RepriceBuyOrders h bp bv (snd (RepriceSellOrders h ap av (s\<lparr>mOrderBookSequence := n\<rparr>)))),
            snd (RepriceBuyOrders h bp bv (snd (RepriceSellOrders h ap av (s\<lparr>mOrderBookSequence := n\<rparr>)))))"
proof -
  from assms have "\<not> n \<le> mOrderBookSequence s"
    by (simp add: not_le)
  then show ?thesis
    by (simp add: OrderBookMessageHandler_def case_prod_unfold Let_def)
qed

section \<open>Book updates that do not reprice\<close>

text \<open>
  Claim C6. A book update whose sequence number is not greater than the last one
  processed is dropped: no request is sent and the state, sequence number included,
  is the one before.
\<close>

theorem stale_book_update_dropped:
  "sequenceNumber \<le> mOrderBookSequence s \<Longrightarrow>
     OrderBookMessageHandler h instrument sequenceNumber askPrices askVolumes bidPrices bidVolumes s
       = ([], s)"
  by (simp add: OrderBookMessageHandler_def)

theorem stale_book_update_dropped_witness:
  "(0 :: ulong) \<le> mOrderBookSequence initial \<and>
   OrderBookMessageHandler \<lparr>MAXIMUM_ASK = 2147483647, MINIMUM_BID = 1\<rparr> FUTURE 0
       (Array5 1000 0 0 0 0) (Array5 5 0 0 0 0) (Array5 900 0 0 0 0) (Array5 5 0 0 0 0) initial
     = ([], initial)"
  using stale_book_update_dropped [of 0 initial "\<lparr>MAXIMUM_ASK = 2147483647, MINIMUM_BID = 1\<rparr>" FUTURE
      "Array5 1000 0 0 0 0" "Array5 5 0 0 0 0" "Array5 900 0 0 0 0" "Array5 5 0 0 0 0"]
  by (simp add: initial_def)

text \<open>
  Claim C9, as amended. A book update for an instrument other than the future sends
  no request and leaves ledgers, counters and position alone. It is not free of
  effect on the state: \<^verbatim>\<open>mOrderBookSequence\<close> is assigned before the instrument is
  looked at, so a sequence number that advances is stored.
\<close>

theorem other_instrument_book_update:
  "instrument \<noteq> FUTURE \<Longrightarrow>
     OrderBookMessageHandler h instrument sequenceNumber askPrices askVolumes bidPrices bidVolumes s
       = ([], if sequenceNumber \<le> mOrderBookSequence s then s
              else s\<lparr>mOrderBookSequence := sequenceNumber\<rparr>)"
  by (simp add: OrderBookMessageHandler_def)

theorem other_instrument_book_update_witness:
  "ETF \<noteq> FUTURE \<and>
   OrderBookMessageHandler \<lparr>MAXIMUM_ASK = 2147483647, MINIMUM_BID = 1\<rparr> ETF 1
       (Array5 1000 0 0 0 0) (Array5 5 0 0 0 0) (Array5 900 0 0 0 0) (Array5 5 0 0 0 0) initial
     = ([], initial\<lparr>mOrderBookSequence := 1\<rparr>)"
  using other_instrument_book_update [of ETF "\<lparr>MAXIMUM_ASK = 2147483647, MINIMUM_BID = 1\<rparr>" 1
      "Array5 1000 0 0 0 0" "Array5 5 0 0 0 0" "Array5 900 0 0 0 0" "Array5 5 0 0 0 0" initial]
  by (simp add: initial_def)

text \<open>
  Claim C9 as stated ("causing no state mutation") fails on the fresh engine: the first
  book update for the ETF changes the stored sequence number.
\<close>

theorem other_instrument_book_update_mutates:
  "snd (OrderBookMessageHandler \<lparr>MAXIMUM_ASK = 2147483647, MINIMUM_BID = 1\<rparr> ETF 1
       (Array5 1000 0 0 0 0) (Array5 5 0 0 0 0) (Array5 900 0 0 0 0) (Array5 5 0 0 0 0) initial)
     \<noteq> initial"
  by (simp add: OrderBookMessageHandler_def initial_def)

section \<open>An empty touch pulls the quotes of its side\<close>

lemma map_entry_keeps_flagged:
  "e \<in> set xs \<Longrightarrow> cancelling (snd e) \<Longrightarrow>
     e \<in> set (AList.map_entry j (\<lambda>order. order\<lparr>cancelling := True\<rparr>) xs)"
  by (induction xs) auto

lemma mark_pulled_in:
  "e \<in> set xs \<Longrightarrow> p e \<Longrightarrow> (fst e, (snd e)\<lparr>cancelling := True\<rparr>) \<in> set (map (mark p) xs)"
  by (force simp: mark_def)

lemma RepriceSellOrders_pulls:
  assumes "at0 ap = 0" and "(k, ord) \<in> set (mAsks s)" and "\<not> cancelling ord"
    and "price ord < MAXIMUM_ASK h"
  shows "SendCancelOrder k \<in> set (fst (RepriceSellOrders h ap av s))"
    and "(k, ord\<lparr>cancelling := True\<rparr>) \<in> set (mAsks (snd (RepriceSellOrders h ap av s)))"
proof -
  have p: "ask_pulled (newAskPrice_of h ap) (k, ord)"
    using assms by (simp add: ask_pulled_def newAskPrice_of_def)
  have "SendCancelOrder k \<in> set (map (\<lambda>e. SendCancelOrder (fst e))
            (filter (ask_pulled (newAskPrice_of h ap)) (mAsks s)))"
    using p assms(2) by force
  then show "SendCancelOrder k \<in> set (fst (RepriceSellOrders h ap av s))"
    using assms(1) by (simp add: RepriceSellOrders_def Let_def case_prod_unfold ask_loop_sent)
  have m: "(k, ord\<lparr>cancelling := True\<rparr>) \<in> set (map (mark (ask_pulled (newAskPrice_of h ap))) (mAsks s))"
    using mark_pulled_in [of "(k, ord)" _ "ask_pulled (newAskPrice_of h ap)", OF assms(2) p] by simp
  show "(k, ord\<lparr>cancelling := True\<rparr>) \<in> set (mAsks (snd (RepriceSellOrders h ap av s)))"
    using assms(1) m map_entry_keeps_flagged [OF m]
    by (simp add: RepriceSellOrders_def Let_def case_prod_unfold ask_loop_ledger)
qed

lemma RepriceBuyOrders_pulls:
  assumes "at0 bp = 0" and "(k, ord) \<in> set (mBids s)" and "\<not> cancelling ord"
    and "0 < price ord"
  shows "SendCancelOrder k \<in> set (fst (RepriceBuyOrders h bp bv s))"
    and "(k, ord\<lparr>cancelling := True\<rparr>) \<in> set (mBids (snd (RepriceBuyOrders h bp bv s)))"
proof -
  have p: "bid_pulled (newBidPrice_of bp) (k, ord)"
    using assms by (simp add: bid_pulled_def newBidPrice_of_def)
  have "SendCancelOrder k \<in> set (map (\<lambda>e. SendCancelOrder (fst e))
            (filter (bid_pulled (newBidPrice_of bp)) (mBids s)))"
    using p assms(2) by force
  then show "SendCancelOrder k \<in> set (fst (RepriceBuyOrders h bp bv s))"
    using assms(1) by (simp add: RepriceBuyOrders_def Let_def case_prod_unfold bid_loop_sent)
  have m: "(k, ord\<lparr>cancelling := True\<rparr>) \<in> set (map (mark (bid_pulled (newBidPrice_of bp))) (mBids s))"
    using mark_pulled_in [of "(k, ord)" _ "bid_pulled (newBidPrice_of bp)", OF assms(2) p] by simp
  show "(k, ord\<lparr>cancelling := True\<rparr>) \<in> set (mBids (snd (RepriceBuyOrders h bp bv s)))"
    using assms(1) m map_entry_keeps_flagged [OF m]
    by (simp add: RepriceBuyOrders_def Let_def case_prod_unfold bid_loop_ledger)
qed

text \<open>
  Claim C10. On a fresh book update for the future whose best ask is zero, every resting
  sell order that is not cancelling and is priced below \<^verbatim>\<open>MAXIMUM_ASK\<close> is sent a cancel
  request and is flagged cancelling in the ledger; when the best bid is zero, the same
  holds for every resting buy order that is not cancelling and is priced above zero.
\<close>

theorem empty_touch_pulls_quotes:
  assumes "mOrderBookSequence s < n"
  shows "(at0 ap = 0 \<and> (k, ord) \<in> set (mAsks s) \<and> \<not> cancelling ord \<and> price ord < MAXIMUM_ASK h
            \<longrightarrow> SendCancelOrder k \<in> set (fst (OrderBookMessageHandler h FUTURE n ap av bp bv s))
                \<and> (k, ord\<lparr>cancelling := True\<rparr>)
                     \<in> set (mAsks (snd (OrderBookMessageHandler h FUTURE n ap av bp bv s))))
       \<and> (at0 bp = 0 \<and> (k', ord') \<in> set (mBids s) \<and> \<not> cancelling ord' \<and> 0 < price ord'
            \<longrightarrow> SendCancelOrder k' \<in> set (fst (OrderBookMessageHandler h FUTURE n ap av bp bv s))
                \<and> (k', ord'\<lparr>cancelling := True\<rparr>)
                     \<in> set (mBids (snd (OrderBookMessageHandler h FUTURE n ap av bp bv s))))"
proof (intro conjI impI)
  let ?s1 = "s\<lparr>mOrderBookSequence := n\<rparr>"
  let ?s2 = "snd (RepriceSellOrders h ap av ?s1)"
  note eq = OrderBookMessageHandler_fresh [OF assms, of h ap av bp bv]
  {
    assume a: "at0 ap = 0 \<and> (k, ord) \<in> set (mAsks s) \<and> \<not> cancelling ord \<and> price ord < MAXIMUM_ASK h"
    then have in1: "(k, ord) \<in> set (mAsks ?s1)" by simp
    from a RepriceSellOrders_pulls [OF _ in1, of ap h av]
    show "SendCancelOrder k \<in> set (fst (OrderBookMessageHandler h FUTURE n ap av bp bv s))"
      by (simp add: eq)
    from a RepriceSellOrders_pulls [OF _ in1, of ap h av]
    show "(k, ord\<lparr>cancelling := True\<rparr>)
            \<in> set (mAsks (snd (OrderBookMessageHandler h FUTURE n ap av bp bv s)))"
      by (simp add: eq RepriceBuyOrders_frame)
  }
  {
    assume b: "at0 bp = 0 \<and> (k', ord') \<in> set (mBids s) \<and> \<not> cancelling ord' \<and> 0 < price ord'"
    then have in2: "(k', ord') \<in> set (mBids ?s2)" by (simp add: RepriceSellOrders_frame)
    from b RepriceBuyOrders_pulls [OF _ in2, of bp h bv]
    show "SendCancelOrder k' \<in> set (fst (OrderBookMessageHandler h FUTURE n ap av bp bv s))"
      by (simp add: eq)
    from b RepriceBuyOrders_pulls [OF _ in2, of bp h bv]
    show "(k', ord'\<lparr>cancelling := True\<rparr>)
            \<in> set (mBids (snd (OrderBookMessageHandler h FUTURE n ap av bp bv s)))"
      by (simp add: eq)
  }
qed

lemma two_quotes_reached:
  "run rtg_limits [OrderBook FUTURE 1 (top_only 1000) (top_only 5) (top_only 900) (top_only 5)] initial
     = ([SendInsertOrder 1 SELL 1100 10 GOOD_FOR_DAY, SendInsertOrder 2 BUY 800 10 GOOD_FOR_DAY],
        two_quotes)"
  by (simp add: rtg_limits_def top_only_def quote_def two_quotes_def initial_def
        OrderBookMessageHandler_def RepriceSellOrders_def RepriceBuyOrders_def
        newAskPrice_of_def newBidPrice_of_def MIN_ORDER_def MAX_ORDER_def
        MAX_ORDER_DEPTH_def LOT_SIZE_def POSITION_LIMIT_def word_sless_alt)

theorem empty_touch_pulls_quotes_witness:
  "mOrderBookSequence two_quotes < 2
   \<and> at0 (top_only 0 :: ulong array5) = 0
   \<and> (1, quote 1100) \<in> set (mAsks two_quotes)
   \<and> \<not> cancelling (quote 1100)
   \<and> price (quote 1100) < MAXIMUM_ASK rtg_limits
   \<and> SendCancelOrder 1 \<in> set (fst (OrderBookMessageHandler rtg_limits FUTURE 2
         (top_only 0) (top_only 0) (top_only 0) (top_only 0) two_quotes))
   \<and> (1, (quote 1100)\<lparr>cancelling := True\<rparr>) \<in> set (mAsks (snd (OrderBookMessageHandler rtg_limits FUTURE 2
         (top_only 0) (top_only 0) (top_only 0) (top_only 0) two_quotes)))
   \<and> (2, quote 800) \<in> set (mBids two_quotes)
   \<and> \<not> cancelling (quote 800)
   \<and> 0 < price (quote 800)
   \<and> SendCancelOrder 2 \<in> set (fst (OrderBookMessageHandler rtg_limits FUTURE 2
         (top_only 0) (top_only 0) (top_only 0) (top_only 0) two_quotes))
   \<and> (2, (quote 800)\<lparr>cancelling := True\<rparr>) \<in> set (mBids (snd (OrderBookMessageHandler rtg_limits FUTURE 2
         (top_only 0) (top_only 0) (top_only 0) (top_only 0) two_quotes)))"
proof -
  have pre: "mOrderBookSequence two_quotes < 2"
    by (simp add: two_quotes_def)
  have hyps: "at0 (top_only 0 :: ulong array5) = 0" "(1, quote 1100) \<in> set (mAsks two_quotes)"
    "\<not> cancelling (quote 1100)" "price (quote 1100) < MAXIMUM_ASK rtg_limits"
    "(2, quote 800) \<in> set (mBids two_quotes)" "\<not> cancelling (quote 800)" "0 < price (quote 800)"
    by (simp_all add: two_quotes_def top_only_def quote_def rtg_limits_def)
  show ?thesis
    using pre hyps
      empty_touch_pulls_quotes [OF pre, of "top_only 0" 1 "quote 1100" rtg_limits "top_only 0"
         "top_only 0" "top_only 0" 2 "quote 800"]
    by blast
qed

section \<open>Target prices and the empty touch\<close>

lemma RepriceSellOrders_recorded:
  assumes "SendInsertOrder c sd p v ls \<in> set (fst (RepriceSellOrders h ap av s))"
  shows "map_of (mAsks (snd (RepriceSellOrders h ap av s))) c
           = Some \<lparr>price = p, remainingVolume = v, filledVolume = 0, cancelling = False\<rparr>"
  using assms
  by (auto simp: RepriceSellOrders_def Let_def case_prod_unfold ask_loop_sent update_conv'
        split: if_splits)

lemma RepriceBuyOrders_recorded:
  assumes "SendInsertOrder c sd p v ls \<in> set (fst (RepriceBuyOrders h bp bv s))"
  shows "map_of (mBids (snd (RepriceBuyOrders h bp bv s))) c
           = Some \<lparr>price = p, remainingVolume = v, filledVolume = 0, cancelling = False\<rparr>"
  using assms
  by (auto simp: RepriceBuyOrders_def Let_def case_prod_unfold bid_loop_sent update_conv'
        split: if_splits)

lemma sell_insert_of_update:
  assumes "mOrderBookSequence s < n"
    and "SendInsertOrder c SELL p v ls \<in> set (fst (OrderBookMessageHandler h FUTURE n ap av bp bv s))"
  shows "at0 ap \<noteq> 0 \<and> p = at0 ap + 100 \<and> v = 10
         \<and> map_of (mAsks (snd (OrderBookMessageHandler h FUTURE n ap av bp bv s))) c
             = Some \<lparr>price = p, remainingVolume = v, filledVolume = 0, cancelling = False\<rparr>"
proof -
  let ?s1 = "s\<lparr>mOrderBookSequence := n\<rparr>"
  let ?s2 = "snd (RepriceSellOrders h ap av ?s1)"
  note eq = OrderBookMessageHandler_fresh [OF assms(1), of h ap av bp bv]
  from assms(2) have "SendInsertOrder c SELL p v ls \<in> set (fst (RepriceSellOrders h ap av ?s1))
      \<or> SendInsertOrder c SELL p v ls \<in> set (fst (RepriceBuyOrders h bp bv ?s2))"
    by (simp add: eq)
  moreover have "SendInsertOrder c SELL p v ls \<notin> set (fst (RepriceBuyOrders h bp bv ?s2))"
    using RepriceBuyOrders_sent [of "SendInsertOrder c SELL p v ls" h bp bv ?s2] by auto
  ultimately have a: "SendInsertOrder c SELL p v ls \<in> set (fst (RepriceSellOrders h ap av ?s1))"
    by blast
  from RepriceSellOrders_sent [OF a] have "at0 ap \<noteq> 0 \<and> p = at0 ap + 100 \<and> v = 10"
    by (auto simp: newAskPrice_of_def LOT_SIZE_def)
  with RepriceSellOrders_recorded [OF a] show ?thesis
    by (simp add: eq RepriceBuyOrders_frame)
qed

lemma buy_insert_of_update:
  assumes "mOrderBookSequence s < n"
    and "SendInsertOrder c BUY p v ls \<in> set (fst (OrderBookMessageHandler h FUTURE n ap av bp bv s))"
  shows "at0 bp \<noteq> 0 \<and> p = at0 bp - 100 \<and> v = 10
         \<and> map_of (mBids (snd (OrderBookMessageHandler h FUTURE n ap av bp bv s))) c
             = Some \<lparr>price = p, remainingVolume = v, filledVolume = 0, cancelling = False\<rparr>"
proof -
  let ?s1 = "s\<lparr>mOrderBookSequence := n\<rparr>"
  let ?s2 = "snd (RepriceSellOrders h ap av ?s1)"
  note eq = OrderBookMessageHandler_fresh [OF assms(1), of h ap av bp bv]
  from assms(2) have "SendInsertOrder c BUY p v ls \<in> set (fst (RepriceSellOrders h ap av ?s1))
      \<or> SendInsertOrder c BUY p v ls \<in> set (fst (RepriceBuyOrders h bp bv ?s2))"
    by (simp add: eq)
  moreover have "SendInsertOrder c BUY p v ls \<notin> set (fst (RepriceSellOrders h ap av ?s1))"
    using RepriceSellOrders_sent [of "SendInsertOrder c BUY p v ls" h ap av ?s1] by auto
  ultimately have a: "SendInsertOrder c BUY p v ls \<in> set (fst (RepriceBuyOrders h bp bv ?s2))"
    by blast
  from RepriceBuyOrders_sent [OF a] have "at0 bp \<noteq> 0 \<and> p = at0 bp - 100 \<and> v = 10"
    by (auto simp: newBidPrice_of_def LOT_SIZE_def)
  with RepriceBuyOrders_recorded [OF a] show ?thesis
    by (simp add: eq)
qed

lemma no_insert_on_empty_touch:
  assumes "mOrderBookSequence s < n"
  shows "at0 ap = 0 \<Longrightarrow>
           map fst (mAsks (snd (OrderBookMessageHandler h FUTURE n ap av bp bv s))) = map fst (mAsks s)
           \<and> mETFOrderAskCount (snd (OrderBookMessageHandler h FUTURE n ap av bp bv s)) = mETFOrderAskCount s
           \<and> mETFOrderPositionSell (snd (OrderBookMessageHandler h FUTURE n ap av bp bv s)) = mETFOrderPositionSell s"
    and "at0 bp = 0 \<Longrightarrow>
           map fst (mBids (snd (OrderBookMessageHandler h FUTURE n ap av bp bv s))) = map fst (mBids s)
           \<and> mETFOrderBidCount (snd (OrderBookMessageHandler h FUTURE n ap av bp bv s)) = mETFOrderBidCount s
           \<and> mETFOrderPositionBuy (snd (OrderBookMessageHandler h FUTURE n ap av bp bv s)) = mETFOrderPositionBuy s"
  by (simp_all add: OrderBookMessageHandler_fresh [OF assms] RepriceBuyOrders_frame
        RepriceSellOrders_frame RepriceSellOrders_empty_touch RepriceBuyOrders_empty_touch)

lemma target_prices_unsigned:
  "at0 ap \<noteq> 0 \<Longrightarrow> unat (at0 ap) + 100 < 2 ^ 64 \<Longrightarrow>
     unat (newAskPrice_of h ap) = unat (at0 ap) + 100"
  "100 \<le> at0 bp \<Longrightarrow> unat (newBidPrice_of bp) = unat (at0 bp) - 100"
proof -
  assume a: "at0 ap \<noteq> 0" "unat (at0 ap) + 100 < 2 ^ 64"
  from a(2) have "unat (at0 ap + 100) = unat (at0 ap) + 100"
    using unat_add_lem [of "at0 ap" 100] by simp
  with a(1) show "unat (newAskPrice_of h ap) = unat (at0 ap) + 100"
    by (simp add: newAskPrice_of_def)
next
  assume b: "100 \<le> at0 bp"
  then have "at0 bp \<noteq> 0"
    by auto
  moreover from b have "unat (at0 bp - 100) = unat (at0 bp) - 100"
    by (simp add: unat_sub)
  ultimately show "unat (newBidPrice_of bp) = unat (at0 bp) - 100"
    by (simp add: newBidPrice_of_def)
qed

text \<open>
  Claim C8. The target of the sell pass is the best ask plus 100, or \<^verbatim>\<open>MAXIMUM_ASK\<close> when
  the best ask is zero; the target of the buy pass is the best bid minus 100, or zero
  when the best bid is zero. The arithmetic is that of \<^verbatim>\<open>unsigned long\<close>: the sum and the
  difference are the integer ones as long as the ask plus 100 fits in 64 bits and the
  bid is at least 100 (one tick). On a fresh book update
  for the future, an order inserted on a side is priced at that side's target, has 10
  lots and is recorded so in the ledger, and the touch it was derived from is not zero;
  when the touch of a side is zero, that side's ledger keeps its order ids and its
  resting count and committed volume stay as they were, whatever room there is.
\<close>

theorem target_price_and_empty_touch:
  assumes "mOrderBookSequence s < n"
  shows "newAskPrice_of h ap = (if at0 ap = 0 then MAXIMUM_ASK h else at0 ap + 100)
       \<and> newBidPrice_of bp = (if at0 bp = 0 then 0 else at0 bp - 100)
       \<and> (at0 ap \<noteq> 0 \<and> unat (at0 ap) + 100 < 2 ^ 64
            \<longrightarrow> unat (newAskPrice_of h ap) = unat (at0 ap) + 100)
       \<and> (100 \<le> at0 bp \<longrightarrow> unat (newBidPrice_of bp) = unat (at0 bp) - 100)
       \<and> (\<forall>c p v ls.
             SendInsertOrder c SELL p v ls \<in> set (fst (OrderBookMessageHandler h FUTURE n ap av bp bv s))
             \<longrightarrow> at0 ap \<noteq> 0 \<and> p = at0 ap + 100 \<and> v = 10
                 \<and> map_of (mAsks (snd (OrderBookMessageHandler h FUTURE n ap av bp bv s))) c
                     = Some \<lparr>price = p, remainingVolume = v, filledVolume = 0, cancelling = False\<rparr>)
       \<and> (\<forall>c p v ls.
             SendInsertOrder c BUY p v ls \<in> set (fst (OrderBookMessageHandler h FUTURE n ap av bp bv s))
             \<longrightarrow> at0 bp \<noteq> 0 \<and> p = at0 bp - 100 \<and> v = 10
                 \<and> map_of (mBids (snd (OrderBookMessageHandler h FUTURE n ap av bp bv s))) c
                     = Some \<lparr>price = p, remainingVolume = v, filledVolume = 0, cancelling = False\<rparr>)
       \<and> (at0 ap = 0 \<longrightarrow>
             map fst (mAsks (snd (OrderBookMessageHandler h FUTURE n ap av bp bv s))) = map fst (mAsks s)
             \<and> mETFOrderAskCount (snd (OrderBookMessageHandler h FUTURE n ap av bp bv s)) = mETFOrderAskCount s
             \<and> mETFOrderPositionSell (snd (OrderBookMessageHandler h FUTURE n ap av bp bv s)) = mETFOrderPositionSell s)
       \<and> (at0 bp = 0 \<longrightarrow>
             map fst (mBids (snd (OrderBookMessageHandler h FUTURE n ap av bp bv s))) = map fst (mBids s)
             \<and> mETFOrderBidCount (snd (OrderBookMessageHandler h FUTURE n ap av bp bv s)) = mETFOrderBidCount s
             \<and> mETFOrderPositionBuy (snd (OrderBookMessageHandler h FUTURE n ap av bp bv s)) = mETFOrderPositionBuy s)"
proof -
  let ?r = "OrderBookMessageHandler h FUTURE n ap av bp bv s"
  have 1: "newAskPrice_of h ap = (if at0 ap = 0 then MAXIMUM_ASK h else at0 ap + 100)"
    by (simp add: newAskPrice_of_def)
  have 2: "newBidPrice_of bp = (if at0 bp = 0 then 0 else at0 bp - 100)"
    by (simp add: newBidPrice_of_def)
  have 3: "\<forall>c p v ls. SendInsertOrder c SELL p v ls \<in> set (fst ?r)
             \<longrightarrow> at0 ap \<noteq> 0 \<and> p = at0 ap + 100 \<and> v = 10
                 \<and> map_of (mAsks (snd ?r)) c
                     = Some \<lparr>price = p, remainingVolume = v, filledVolume = 0, cancelling = False\<rparr>"
    using sell_insert_of_update [OF assms] by (intro allI impI)
  have 4: "\<forall>c p v ls. SendInsertOrder c BUY p v ls \<in> set (fst ?r)
             \<longrightarrow> at0 bp \<noteq> 0 \<and> p = at0 bp - 100 \<and> v = 10
                 \<and> map_of (mBids (snd ?r)) c
                     = Some \<lparr>price = p, remainingVolume = v, filledVolume = 0, cancelling = False\<rparr>"
    using buy_insert_of_update [OF assms] by (intro allI impI)
  note 5 = no_insert_on_empty_touch(1) [OF assms, of ap h av bp bv]
  note 6 = no_insert_on_empty_touch(2) [OF assms, of bp h ap av bv]
  have 7: "at0 ap \<noteq> 0 \<and> unat (at0 ap) + 100 < 2 ^ 64
            \<longrightarrow> unat (newAskPrice_of h ap) = unat (at0 ap) + 100"
    using target_prices_unsigned(1) [of ap h] by blast
  have 8: "100 \<le> at0 bp \<longrightarrow> unat (newBidPrice_of bp) = unat (at0 bp) - 100"
    using target_prices_unsigned(2) [of bp] by blast
  show ?thesis
    apply (rule conjI [OF 1])
    apply (rule conjI [OF 2])
    apply (rule conjI [OF 7])
    apply (rule conjI [OF 8])
    apply (rule conjI [OF 3])
    apply (rule conjI [OF 4])
    apply (rule conjI)
     apply (rule impI)
     apply (erule 5)
    apply (rule impI)
    apply (erule 6)
    done
qed

theorem target_price_and_empty_touch_witness:
  "mOrderBookSequence initial < 1
   \<and> SendInsertOrder 1 SELL 1100 10 GOOD_FOR_DAY
        \<in> set (fst (OrderBookMessageHandler rtg_limits FUTURE 1
                      (top_only 1000) (top_only 5) (top_only 900) (top_only 5) initial))
   \<and> at0 (top_only 1000 :: ulong array5) \<noteq> 0
   \<and> (1100 :: ulong) = at0 (top_only 1000) + 100
   \<and> map_of (mAsks (snd (OrderBookMessageHandler rtg_limits FUTURE 1
                      (top_only 1000) (top_only 5) (top_only 900) (top_only 5) initial))) 1
        = Some \<lparr>price = 1100, remainingVolume = 10, filledVolume = 0, cancelling = False\<rparr>
   \<and> SendInsertOrder 2 BUY 800 10 GOOD_FOR_DAY
        \<in> set (fst (OrderBookMessageHandler rtg_limits FUTURE 1
                      (top_only 1000) (top_only 5) (top_only 900) (top_only 5) initial))
   \<and> at0 (top_only 900 :: ulong array5) \<noteq> 0
   \<and> (800 :: ulong) = at0 (top_only 900) - 100
   \<and> map_of (mBids (snd (OrderBookMessageHandler rtg_limits FUTURE 1
                      (top_only 1000) (top_only 5) (top_only 900) (top_only 5) initial))) 2
        = Some \<lparr>price = 800, remainingVolume = 10, filledVolume = 0, cancelling = False\<rparr>
   \<and> unat (at0 (top_only 1000 :: ulong array5)) + 100 < 2 ^ 64
   \<and> unat (newAskPrice_of rtg_limits (top_only 1000)) = unat (at0 (top_only 1000 :: ulong array5)) + 100
   \<and> 100 \<le> at0 (top_only 900 :: ulong array5)
   \<and> unat (newBidPrice_of (top_only 900)) = unat (at0 (top_only 900 :: ulong array5)) - 100
   \<and> mOrderBookSequence two_quotes < 2
   \<and> at0 (top_only 0 :: ulong array5) = 0
   \<and> newAskPrice_of rtg_limits (top_only 0) = MAXIMUM_ASK rtg_limits
   \<and> newBidPrice_of (top_only 0) = 0
   \<and> map fst (mAsks (snd (OrderBookMessageHandler rtg_limits FUTURE 2
                      (top_only 0) (top_only 0) (top_only 0) (top_only 0) two_quotes))) = [1]
   \<and> mETFOrderAskCount (snd (OrderBookMessageHandler rtg_limits FUTURE 2
                      (top_only 0) (top_only 0) (top_only 0) (top_only 0) two_quotes)) = 1
   \<and> mETFOrderPositionSell (snd (OrderBookMessageHandler rtg_limits FUTURE 2
                      (top_only 0) (top_only 0) (top_only 0) (top_only 0) two_quotes)) = 10
   \<and> map fst (mBids (snd (OrderBookMessageHandler rtg_limits FUTURE 2
                      (top_only 0) (top_only 0) (top_only 0) (top_only 0) two_quotes))) = [2]
   \<and> mETFOrderBidCount (snd (OrderBookMessageHandler rtg_limits FUTURE 2
                      (top_only 0) (top_only 0) (top_only 0) (top_only 0) two_quotes)) = 1
   \<and> mETFOrderPositionBuy (snd (OrderBookMessageHandler rtg_limits FUTURE 2
                      (top_only 0) (top_only 0) (top_only 0) (top_only 0) two_quotes)) = 10"
proof -
  let ?a = "OrderBookMessageHandler rtg_limits FUTURE 1
              (top_only 1000) (top_only 5) (top_only 900) (top_only 5) initial"
  have preA: "mOrderBookSequence initial < 1"
    by (simp add: initial_def)
  have preB: "mOrderBookSequence two_quotes < 2"
    by (simp add: two_quotes_def)
  have sent: "fst ?a = [SendInsertOrder 1 SELL 1100 10 GOOD_FOR_DAY,
                        SendInsertOrder 2 BUY 800 10 GOOD_FOR_DAY]"
    using two_quotes_reached by (simp add: case_prod_unfold)
  have ins: "SendInsertOrder 1 SELL 1100 10 GOOD_FOR_DAY \<in> set (fst ?a)"
    "SendInsertOrder 2 BUY 800 10 GOOD_FOR_DAY \<in> set (fst ?a)"
    by (simp_all add: sent)
  have zero: "at0 (top_only 0 :: ulong array5) = 0"
    by (simp add: top_only_def)
  note A = target_price_and_empty_touch [OF preA, of rtg_limits "top_only 1000" "top_only 900"
      "top_only 5" "top_only 5"]
  note B = target_price_and_empty_touch [OF preB, of rtg_limits "top_only 0" "top_only 0"
      "top_only 0" "top_only 0"]
  from A ins have a: "at0 (top_only 1000 :: ulong array5) \<noteq> 0"
    "(1100 :: ulong) = at0 (top_only 1000) + 100"
    "map_of (mAsks (snd ?a)) 1
       = Some \<lparr>price = 1100, remainingVolume = 10, filledVolume = 0, cancelling = False\<rparr>"
    "at0 (top_only 900 :: ulong array5) \<noteq> 0"
    "(800 :: ulong) = at0 (top_only 900) - 100"
    "map_of (mBids (snd ?a)) 2
       = Some \<lparr>price = 800, remainingVolume = 10, filledVolume = 0, cancelling = False\<rparr>"
    by blast+
  from B zero have b: "newAskPrice_of rtg_limits (top_only 0) = MAXIMUM_ASK rtg_limits"
    "newBidPrice_of (top_only 0) = 0"
    by simp_all
  from B zero have c: "map fst (mAsks (snd (OrderBookMessageHandler rtg_limits FUTURE 2
                      (top_only 0) (top_only 0) (top_only 0) (top_only 0) two_quotes)))
                       = map fst (mAsks two_quotes)"
    "mETFOrderAskCount (snd (OrderBookMessageHandler rtg_limits FUTURE 2
                      (top_only 0) (top_only 0) (top_only 0) (top_only 0) two_quotes))
                       = mETFOrderAskCount two_quotes"
    "mETFOrderPositionSell (snd (OrderBookMessageHandler rtg_limits FUTURE 2
                      (top_only 0) (top_only 0) (top_only 0) (top_only 0) two_quotes))
                       = mETFOrderPositionSell two_quotes"
    "map fst (mBids (snd (OrderBookMessageHandler rtg_limits FUTURE 2
                      (top_only 0) (top_only 0) (top_only 0) (top_only 0) two_quotes)))
                       = map fst (mBids two_quotes)"
    "mETFOrderBidCount (snd (OrderBookMessageHandler rtg_limits FUTURE 2
                      (top_only 0) (top_only 0) (top_only 0) (top_only 0) two_quotes))
                       = mETFOrderBidCount two_quotes"
    "mETFOrderPositionBuy (snd (OrderBookMessageHandler rtg_limits FUTURE 2
                      (top_only 0) (top_only 0) (top_only 0) (top_only 0) two_quotes))
                       = mETFOrderPositionBuy two_quotes"
    by blast+
  have e: "unat (at0 (top_only 1000 :: ulong array5)) + 100 < 2 ^ 64"
    "100 \<le> at0 (top_only 900 :: ulong array5)"
    by (simp_all add: top_only_def)
  from A a(1) a(4) e have f:
    "unat (newAskPrice_of rtg_limits (top_only 1000)) = unat (at0 (top_only 1000 :: ulong array5)) + 100"
    "unat (newBidPrice_of (top_only 900)) = unat (at0 (top_only 900 :: ulong array5)) - 100"
    by blast+
  have d: "map fst (mAsks two_quotes) = [1]" "mETFOrderAskCount two_quotes = 1"
    "mETFOrderPositionSell two_quotes = 10" "map fst (mBids two_quotes) = [2]"
    "mETFOrderBidCount two_quotes = 1" "mETFOrderPositionBuy two_quotes = 10"
    by (simp_all add: two_quotes_def)
  show ?thesis
    using preA preB ins zero a b c [unfolded d] e f by blast
qed

section \<open>Order-status updates\<close>

lemma apply_status_again:
  assumes "0 < r" and "filledVolume ord = f" and "remainingVolume ord = r"
    and "map_of (if sell then mAsks s else mBids s) c = Some ord"
  shows "apply_status h sell c ord f r s = ([], s)"
  using assms
  by (cases sell) (simp_all add: apply_status_def Let_def update_triv)

lemma apply_status_ledger:
  "mAsks (snd (apply_status h True c ord f r s))
     = (if 0 < r then AList.update c (ord\<lparr>remainingVolume := r, filledVolume := f\<rparr>) (mAsks s)
        else AList.delete c (mAsks s))"
  "mBids (snd (apply_status h True c ord f r s)) = mBids s"
  "mBids (snd (apply_status h False c ord f r s))
     = (if 0 < r then AList.update c (ord\<lparr>remainingVolume := r, filledVolume := f\<rparr>) (mBids s)
        else AList.delete c (mBids s))"
  "mAsks (snd (apply_status h False c ord f r s)) = mAsks s"
  by (simp_all add: apply_status_def Let_def)

text \<open>
  Claim C5. Delivering the same order-status update a second time, right after the
  first, sends nothing and leaves every field of the state as the first delivery left
  it. The order id is taken to be in one ledger at most, as the data model has it (ids
  are allocated once); an id held by both ledgers would be settled on the sell side
  first and on the buy side second.
\<close>

theorem repeated_status_is_noop:
  assumes "\<not> (map_of (mAsks s) c \<noteq> None \<and> map_of (mBids s) c \<noteq> None)"
  shows "OrderStatusMessageHandler h c f r fees (snd (OrderStatusMessageHandler h c f r fees s))
           = ([], snd (OrderStatusMessageHandler h c f r fees s))"
proof (cases "map_of (mAsks s) c")
  case None
  note noask = this
  show ?thesis
  proof (cases "map_of (mBids s) c")
    case None
    with noask show ?thesis by (simp add: OrderStatusMessageHandler_def)
  next
    case (Some ord)
    let ?s' = "snd (apply_status h False c ord f r s)"
    have first: "OrderStatusMessageHandler h c f r fees s = apply_status h False c ord f r s"
      using noask Some by (simp add: OrderStatusMessageHandler_def)
    show ?thesis
    proof (cases "0 < r")
      case True
      let ?o = "ord\<lparr>remainingVolume := r, filledVolume := f\<rparr>"
      have "map_of (mAsks ?s') c = None" "map_of (mBids ?s') c = Some ?o"
        using noask True by (simp_all add: apply_status_ledger update_conv')
      then have "OrderStatusMessageHandler h c f r fees ?s' = apply_status h False c ?o f r ?s'"
        by (simp add: OrderStatusMessageHandler_def)
      also have "\<dots> = ([], ?s')"
        by (rule apply_status_again [OF True])
           (simp_all add: apply_status_ledger True update_conv')
      finally show ?thesis by (simp only: first)
    next
      case False
      then have "map_of (mAsks ?s') c = None" "map_of (mBids ?s') c = None"
        using noask by (simp_all add: apply_status_ledger delete_conv')
      then have "OrderStatusMessageHandler h c f r fees ?s' = ([], ?s')"
        by (simp add: OrderStatusMessageHandler_def)
      then show ?thesis by (simp only: first)
    qed
  qed
next
  case (Some ord)
  with assms have nobid: "map_of (mBids s) c = None" by simp
  let ?s' = "snd (apply_status h True c ord f r s)"
  have first: "OrderStatusMessageHandler h c f r fees s = apply_status h True c ord f r s"
    using Some by (simp add: OrderStatusMessageHandler_def)
  show ?thesis
  proof (cases "0 < r")
    case True
    let ?o = "ord\<lparr>remainingVolume := r, filledVolume := f\<rparr>"
    have "map_of (mAsks ?s') c = Some ?o"
      using True by (simp_all add: apply_status_ledger update_conv')
    then have "OrderStatusMessageHandler h c f r fees ?s' = apply_status h True c ?o f r ?s'"
      by (simp add: OrderStatusMessageHandler_def)
    also have "\<dots> = ([], ?s')"
      by (rule apply_status_again [OF True])
         (simp_all add: apply_status_ledger True update_conv')
    finally show ?thesis by (simp only: first)
  next
    case False
    then have "map_of (mAsks ?s') c = None" "map_of (mBids ?s') c = None"
      using nobid by (simp_all add: apply_status_ledger delete_conv')
    then have "OrderStatusMessageHandler h c f r fees ?s' = ([], ?s')"
      by (simp add: OrderStatusMessageHandler_def)
    then show ?thesis by (simp only: first)
  qed
qed

theorem repeated_status_is_noop_witness:
  "\<not> (map_of (mAsks two_quotes) 1 \<noteq> None \<and> map_of (mBids two_quotes) 1 \<noteq> None)
   \<and> fst (OrderStatusMessageHandler rtg_limits 1 4 6 0 two_quotes)
       = [SendHedgeOrder 3 BUY 2147483600 4]
   \<and> OrderStatusMessageHandler rtg_limits 1 4 6 0
         (snd (OrderStatusMessageHandler rtg_limits 1 4 6 0 two_quotes))
       = ([], snd (OrderStatusMessageHandler rtg_limits 1 4 6 0 two_quotes))"
proof -
  have pre: "\<not> (map_of (mAsks two_quotes) 1 \<noteq> None \<and> map_of (mBids two_quotes) 1 \<noteq> None)"
    by (simp add: two_quotes_def)
  have "fst (OrderStatusMessageHandler rtg_limits 1 4 6 0 two_quotes)
          = [SendHedgeOrder 3 BUY 2147483600 4]"
    by (simp add: OrderStatusMessageHandler_def apply_status_def two_quotes_def quote_def
          rtg_limits_def MAX_ASK_NEAREST_TICK_def TICK_SIZE_IN_CENTS_def Let_def)
  with pre repeated_status_is_noop [OF pre, of rtg_limits 4 6 0] show ?thesis
    by blast
qed

section \<open>A fill volume below the stored one\<close>

lemma half_bought_reached:
  "run rtg_limits
     [OrderBook FUTURE 1 (top_only 1000) (top_only 5) (top_only 900) (top_only 5),
      OrderStatus 2 5 5 0] initial
     = ([SendInsertOrder 1 SELL 1100 10 GOOD_FOR_DAY, SendInsertOrder 2 BUY 800 10 GOOD_FOR_DAY,
         SendHedgeOrder 3 SELL 100 5],
        half_bought)"
proof -
  have "OrderStatusMessageHandler rtg_limits 2 5 5 0 two_quotes
          = ([SendHedgeOrder 3 SELL 100 5], half_bought)"
    by (simp add: OrderStatusMessageHandler_def apply_status_def two_quotes_def quote_def
          half_bought_def rtg_limits_def MIN_BID_NEARST_TICK_def TICK_SIZE_IN_CENTS_def Let_def)
  then show ?thesis
    using two_quotes_reached by (simp add: case_prod_unfold)
qed

text \<open>
  Claim C3 at a failing input: buy order 2 has 5 lots filled and 5 remaining when the
  exchange reports an error for it. \<^verbatim>\<open>ErrorMessageHandler\<close> passes a fill volume of 0, the
  unsigned difference \<^verbatim>\<open>0 - 5\<close> wraps to \<open>2 ^ 64 - 5\<close>, which is greater than zero: a
  hedge order for that many lots is sent and the confirmed position goes from 5 back
  to 0. The removal, the resting count and the committed volume are as the claim says.
\<close>

theorem error_on_part_filled_order:
  "ErrorMessageHandler rtg_limits 2 ''rejected'' half_bought
     = ([SendHedgeOrder 4 SELL 100 18446744073709551611],
        half_bought\<lparr>mETFPosition := 0, mNextMessageId := 5, mETFOrderPositionBuy := 0,
                    mETFOrderBidCount := 0, mBids := []\<rparr>)"
  by (simp add: ErrorMessageHandler_def OrderStatusMessageHandler_def apply_status_def
        half_bought_def quote_def rtg_limits_def MIN_BID_NEARST_TICK_def
        TICK_SIZE_IN_CENTS_def Let_def word_gt_0)

theorem error_on_part_filled_order_witness:
  "(2 :: ulong) \<noteq> 0
   \<and> map_of (mBids half_bought) 2
       = Some \<lparr>price = 800, remainingVolume = 5, filledVolume = 5, cancelling = False\<rparr>
   \<and> mETFPosition half_bought = 5
   \<and> fst (ErrorMessageHandler rtg_limits 2 ''rejected'' half_bought)
       = [SendHedgeOrder 4 SELL 100 18446744073709551611]
   \<and> mETFPosition (snd (ErrorMessageHandler rtg_limits 2 ''rejected'' half_bought)) = 0"
  using error_on_part_filled_order by (simp add: half_bought_def)

text \<open>
  Claim C4 at a failing input: the same order, with 5 lots filled, receives a status
  update that reports a fill volume of 3. The claim has no hedge order and an unchanged
  position there; \<^verbatim>\<open>dFilled\<close> is unsigned, \<^verbatim>\<open>dFilled > 0\<close> holds for every nonzero
  difference, and a hedge order for \<open>2 ^ 64 - 2\<close> lots is sent while the position moves
  from 5 to 3.
\<close>

theorem status_with_smaller_fill:
  "OrderStatusMessageHandler rtg_limits 2 3 5 0 half_bought
     = ([SendHedgeOrder 4 SELL 100 18446744073709551614],
        half_bought\<lparr>mETFPosition := 3, mNextMessageId := 5,
                    mBids := [(2, \<lparr>price = 800, remainingVolume = 5, filledVolume = 3,
                                  cancelling = False\<rparr>)]\<rparr>)"
  by (simp add: OrderStatusMessageHandler_def apply_status_def
        half_bought_def quote_def rtg_limits_def MIN_BID_NEARST_TICK_def
        TICK_SIZE_IN_CENTS_def Let_def word_gt_0)

section \<open>The shape of a repricing pass\<close>

lemma unflag_mark1 [simp]: "unflag (mark p e) = unflag e"
  by (simp add: unflag_def mark_def)

lemma unflag_mark: "map unflag (map (mark p) xs) = map unflag xs"
  by simp

lemma unflag_map_entry:
  "map unflag (AList.map_entry k (\<lambda>order. order\<lparr>cancelling := True\<rparr>) xs) = map unflag xs"
  by (induction xs) (auto simp: unflag_def)

lemma keys_unflag: "map fst (map unflag xs) = map fst xs"
  by (induction xs) (simp_all add: unflag_def)

lemma unflag_keys:
  assumes "map unflag ys = map unflag xs"
  shows "map fst ys = map fst xs"
  using keys_unflag [of ys] keys_unflag [of xs] by (simp only: assms)

lemma unflag_length:
  assumes "map unflag ys = map unflag xs"
  shows "length ys = length xs"
  using length_map [of unflag ys] length_map [of unflag xs] by (simp only: assms)

lemma RepriceSellOrders_shape:
  "\<exists>asks2. map unflag asks2 = map unflag (mAsks s) \<and>
     (snd (RepriceSellOrders h ap av s) = s\<lparr>mAsks := asks2\<rparr>
      \<or> (\<not> word_sless (mETFPosition s - mETFOrderPositionSell s - LOT_SIZE) (- POSITION_LIMIT)
         \<and> \<not> MAX_ORDER_DEPTH \<le> mETFOrderAskCount s
         \<and> snd (RepriceSellOrders h ap av s)
             = s\<lparr>mNextMessageId := mNextMessageId s + 1,
                 mETFOrderAskCount := mETFOrderAskCount s + 1,
                 mETFOrderPositionSell := mETFOrderPositionSell s + LOT_SIZE,
                 mAsks := AList.update (mNextMessageId s)
                            \<lparr>price = newAskPrice_of h ap, remainingVolume = LOT_SIZE,
                             filledVolume = 0, cancelling = False\<rparr> asks2\<rparr>))"
proof -
  let ?l = "snd (snd (ask_loop (newAskPrice_of h ap) (mAsks s)
              \<lparr>largestOrderId = 0, largestOrder = MIN_ORDER, askAlreadyExists = False\<rparr>))"
  let ?asks1 = "map (mark (ask_pulled (newAskPrice_of h ap))) (mAsks s)"
  let ?M = "largestOrderId ?l \<noteq> 0 \<and> \<not> cancelling (largestOrder ?l)
              \<and> MAX_ORDER_DEPTH - 1 \<le> mETFOrderAskCount s"
  let ?asks2 = "if ?M
      then AList.map_entry (largestOrderId ?l) (\<lambda>order. order\<lparr>cancelling := True\<rparr>) ?asks1
      else ?asks1"
  let ?G = "askAlreadyExists ?l
      \<or> word_sless (mETFPosition s - mETFOrderPositionSell s - LOT_SIZE) (- POSITION_LIMIT)
      \<or> MAX_ORDER_DEPTH \<le> mETFOrderAskCount s \<or> at0 ap = 0"
  have u: "map unflag ?asks2 = map unflag (mAsks s)"
    by (simp add: unflag_map_entry)
  show ?thesis
  proof (cases ?G)
    case True
    have "snd (RepriceSellOrders h ap av s) = s\<lparr>mAsks := ?asks2\<rparr>"
      unfolding RepriceSellOrders_def Let_def case_prod_unfold ask_loop_ledger
      by (simp only: True if_True snd_conv)
    with u show ?thesis by blast
  next
    case False
    have "snd (RepriceSellOrders h ap av s)
             = s\<lparr>mAsks := ?asks2\<rparr>\<lparr>mNextMessageId := mNextMessageId s + 1,
                 mETFOrderAskCount := mETFOrderAskCount s + 1,
                 mETFOrderPositionSell := mETFOrderPositionSell s + LOT_SIZE,
                 mAsks := AList.update (mNextMessageId s)
                            \<lparr>price = newAskPrice_of h ap, remainingVolume = LOT_SIZE,
                             filledVolume = 0, cancelling = False\<rparr> ?asks2\<rparr>"
      unfolding RepriceSellOrders_def Let_def case_prod_unfold ask_loop_ledger
      by (simp only: False if_False snd_conv)
    then have "snd (RepriceSellOrders h ap av s)
             = s\<lparr>mNextMessageId := mNextMessageId s + 1,
                 mETFOrderAskCount := mETFOrderAskCount s + 1,
                 mETFOrderPositionSell := mETFOrderPositionSell s + LOT_SIZE,
                 mAsks := AList.update (mNextMessageId s)
                            \<lparr>price = newAskPrice_of h ap, remainingVolume = LOT_SIZE,
                             filledVolume = 0, cancelling = False\<rparr> ?asks2\<rparr>"
      by simp
    with u False show ?thesis by blast
  qed
qed

lemma RepriceBuyOrders_shape:
  "\<exists>bids2. map unflag bids2 = map unflag (mBids s) \<and>
     (snd (RepriceBuyOrders h bp bv s) = s\<lparr>mBids := bids2\<rparr>
      \<or> (\<not> word_sless POSITION_LIMIT (mETFPosition s + mETFOrderPositionBuy s + LOT_SIZE)
         \<and> \<not> MAX_ORDER_DEPTH \<le> mETFOrderBidCount s
         \<and> snd (RepriceBuyOrders h bp bv s)
             = s\<lparr>mNextMessageId := mNextMessageId s + 1,
                 mETFOrderBidCount := mETFOrderBidCount s + 1,
                 mETFOrderPositionBuy := mETFOrderPositionBuy s + LOT_SIZE,
                 mBids := AList.update (mNextMessageId s)
                            \<lparr>price = newBidPrice_of bp, remainingVolume = LOT_SIZE,
                             filledVolume = 0, cancelling = False\<rparr> bids2\<rparr>))"
proof -
  let ?l = "snd (snd (bid_loop (newBidPrice_of bp) (mBids s)
              \<lparr>smallestOrderId = 0, smallestOrder = MAX_ORDER h, bidAlreadyExists = False\<rparr>))"
  let ?bids1 = "map (mark (bid_pulled (newBidPrice_of bp))) (mBids s)"
  let ?M = "smallestOrderId ?l \<noteq> 0 \<and> \<not> cancelling (smallestOrder ?l)
              \<and> MAX_ORDER_DEPTH - 1 \<le> mETFOrderBidCount s"
  let ?bids2 = "if ?M
      then AList.map_entry (smallestOrderId ?l) (\<lambda>order. order\<lparr>cancelling := True\<rparr>) ?bids1
      else ?bids1"
  let ?G = "bidAlreadyExists ?l
      \<or> word_sless POSITION_LIMIT (mETFPosition s + mETFOrderPositionBuy s + LOT_SIZE)
      \<or> MAX_ORDER_DEPTH \<le> mETFOrderBidCount s \<or> at0 bp = 0"
  have u: "map unflag ?bids2 = map unflag (mBids s)"
    by (simp add: unflag_map_entry)
  show ?thesis
  proof (cases ?G)
    case True
    have "snd (RepriceBuyOrders h bp bv s) = s\<lparr>mBids := ?bids2\<rparr>"
      unfolding RepriceBuyOrders_def Let_def case_prod_unfold bid_loop_ledger
      by (simp only: True if_True snd_conv)
    with u show ?thesis by blast
  next
    case False
    have "snd (RepriceBuyOrders h bp bv s)
             = s\<lparr>mBids := ?bids2\<rparr>\<lparr>mNextMessageId := mNextMessageId s + 1,
                 mETFOrderBidCount := mETFOrderBidCount s + 1,
                 mETFOrderPositionBuy := mETFOrderPositionBuy s + LOT_SIZE,
                 mBids := AList.update (mNextMessageId s)
                            \<lparr>price = newBidPrice_of bp, remainingVolume = LOT_SIZE,
                             filledVolume = 0, cancelling = False\<rparr> ?bids2\<rparr>"
      unfolding RepriceBuyOrders_def Let_def case_prod_unfold bid_loop_ledger
      by (simp only: False if_False snd_conv)
    then have "snd (RepriceBuyOrders h bp bv s)
             = s\<lparr>mNextMessageId := mNextMessageId s + 1,
                 mETFOrderBidCount := mETFOrderBidCount s + 1,
                 mETFOrderPositionBuy := mETFOrderPositionBuy s + LOT_SIZE,
                 mBids := AList.update (mNextMessageId s)
                            \<lparr>price = newBidPrice_of bp, remainingVolume = LOT_SIZE,
                             filledVolume = 0, cancelling = False\<rparr> ?bids2\<rparr>"
      by simp
    with u False show ?thesis by blast
  qed
qed

section \<open>The number of resting orders\<close>

lemma length_update_le: "length (AList.update k v al) \<le> Suc (length al)"
  by (induction al) auto

lemma length_update_present:
  "map_of al k = Some v \<Longrightarrow> length (AList.update k v' al) = length al"
  by (induction al) (auto split: if_splits)

lemma length_delete_present:
  "map_of al k = Some v \<Longrightarrow> length (AList.delete k al) < length al"
proof (induction al)
  case Nil
  then show ?case by simp
next
  case (Cons a al)
  have "length (AList.delete k al) \<le> length al"
    by (rule length_delete_le)
  with Cons show ?case
    by (auto split: if_splits)
qed

lemma count_up:
  fixes c :: uint
  assumes "\<not> MAX_ORDER_DEPTH \<le> c"
  shows "unat (c + 1) = Suc (unat c)" and "unat c < 5"
proof -
  from assms show b: "unat c < 5"
    by (simp add: word_le_nat_alt MAX_ORDER_DEPTH_def)
  then show "unat (c + 1) = Suc (unat c)"
    by (simp add: unat_word_ariths)
qed

lemma count_down:
  fixes c :: uint
  assumes "0 < unat c"
  shows "unat (c - 1) = unat c - 1"
  using assms by (simp add: unat_minus_one unat_gt_0)

lemma RepriceSellOrders_depth:
  assumes "depth_ok s"
  shows "depth_ok (snd (RepriceSellOrders h ap av s))"
proof -
  from RepriceSellOrders_shape [of s h ap av] obtain asks2
    where u: "map unflag asks2 = map unflag (mAsks s)"
      and r: "snd (RepriceSellOrders h ap av s) = s\<lparr>mAsks := asks2\<rparr>
      \<or> (\<not> word_sless (mETFPosition s - mETFOrderPositionSell s - LOT_SIZE) (- POSITION_LIMIT)
         \<and> \<not> MAX_ORDER_DEPTH \<le> mETFOrderAskCount s
         \<and> snd (RepriceSellOrders h ap av s)
             = s\<lparr>mNextMessageId := mNextMessageId s + 1,
                 mETFOrderAskCount := mETFOrderAskCount s + 1,
                 mETFOrderPositionSell := mETFOrderPositionSell s + LOT_SIZE,
                 mAsks := AList.update (mNextMessageId s)
                            \<lparr>price = newAskPrice_of h ap, remainingVolume = LOT_SIZE,
                             filledVolume = 0, cancelling = False\<rparr> asks2\<rparr>)"
    by blast
  note len = unflag_length [OF u]
  have dist: "distinct (map fst asks2)"
    using assms unfolding unflag_keys [OF u] by (simp add: depth_ok_def)
  from r show ?thesis
  proof
    assume "snd (RepriceSellOrders h ap av s) = s\<lparr>mAsks := asks2\<rparr>"
    with assms len dist show ?thesis
      by (simp add: depth_ok_def)
  next
    assume a: "\<not> word_sless (mETFPosition s - mETFOrderPositionSell s - LOT_SIZE) (- POSITION_LIMIT)
         \<and> \<not> MAX_ORDER_DEPTH \<le> mETFOrderAskCount s
         \<and> snd (RepriceSellOrders h ap av s)
             = s\<lparr>mNextMessageId := mNextMessageId s + 1,
                 mETFOrderAskCount := mETFOrderAskCount s + 1,
                 mETFOrderPositionSell := mETFOrderPositionSell s + LOT_SIZE,
                 mAsks := AList.update (mNextMessageId s)
                            \<lparr>price = newAskPrice_of h ap, remainingVolume = LOT_SIZE,
                             filledVolume = 0, cancelling = False\<rparr> asks2\<rparr>"
    let ?new = "\<lparr>price = newAskPrice_of h ap, remainingVolume = LOT_SIZE,
                             filledVolume = 0, cancelling = False\<rparr>"
    from a have c: "unat (mETFOrderAskCount s + 1) = Suc (unat (mETFOrderAskCount s))"
      "unat (mETFOrderAskCount s) < 5"
      using count_up by blast+
    have "length (AList.update (mNextMessageId s) ?new asks2) \<le> Suc (length asks2)"
      by (rule length_update_le)
    moreover from assms have "length (mAsks s) \<le> unat (mETFOrderAskCount s)"
      by (simp add: depth_ok_def)
    ultimately have l: "length (AList.update (mNextMessageId s) ?new asks2)
        \<le> Suc (unat (mETFOrderAskCount s))"
      unfolding len by linarith
    have d: "distinct (map fst (AList.update (mNextMessageId s) ?new asks2))"
      using dist by (rule distinct_update)
    from a assms c l d show ?thesis
      by (simp add: depth_ok_def)
  qed
qed

lemma RepriceBuyOrders_depth:
  assumes "depth_ok s"
  shows "depth_ok (snd (RepriceBuyOrders h bp bv s))"
proof -
  from RepriceBuyOrders_shape [of s h bp bv] obtain bids2
    where u: "map unflag bids2 = map unflag (mBids s)"
      and r: "snd (RepriceBuyOrders h bp bv s) = s\<lparr>mBids := bids2\<rparr>
      \<or> (\<not> word_sless POSITION_LIMIT (mETFPosition s + mETFOrderPositionBuy s + LOT_SIZE)
         \<and> \<not> MAX_ORDER_DEPTH \<le> mETFOrderBidCount s
         \<and> snd (RepriceBuyOrders h bp bv s)
             = s\<lparr>mNextMessageId := mNextMessageId s + 1,
                 mETFOrderBidCount := mETFOrderBidCount s + 1,
                 mETFOrderPositionBuy := mETFOrderPositionBuy s + LOT_SIZE,
                 mBids := AList.update (mNextMessageId s)
                            \<lparr>price = newBidPrice_of bp, remainingVolume = LOT_SIZE,
                             filledVolume = 0, cancelling = False\<rparr> bids2\<rparr>)"
    by blast
  note len = unflag_length [OF u]
  have dist: "distinct (map fst bids2)"
    using assms unfolding unflag_keys [OF u] by (simp add: depth_ok_def)
  from r show ?thesis
  proof
    assume "snd (RepriceBuyOrders h bp bv s) = s\<lparr>mBids := bids2\<rparr>"
    with assms len dist show ?thesis
      by (simp add: depth_ok_def)
  next
    assume a: "\<not> word_sless POSITION_LIMIT (mETFPosition s + mETFOrderPositionBuy s + LOT_SIZE)
         \<and> \<not> MAX_ORDER_DEPTH \<le> mETFOrderBidCount s
         \<and> snd (RepriceBuyOrders h bp bv s)
             = s\<lparr>mNextMessageId := mNextMessageId s + 1,
                 mETFOrderBidCount := mETFOrderBidCount s + 1,
                 mETFOrderPositionBuy := mETFOrderPositionBuy s + LOT_SIZE,
                 mBids := AList.update (mNextMessageId s)
                            \<lparr>price = newBidPrice_of bp, remainingVolume = LOT_SIZE,
                             filledVolume = 0, cancelling = False\<rparr> bids2\<rparr>"
    let ?new = "\<lparr>price = newBidPrice_of bp, remainingVolume = LOT_SIZE,
                             filledVolume = 0, cancelling = False\<rparr>"
    from a have c: "unat (mETFOrderBidCount s + 1) = Suc (unat (mETFOrderBidCount s))"
      "unat (mETFOrderBidCount s) < 5"
      using count_up by blast+
    have "length (AList.update (mNextMessageId s) ?new bids2) \<le> Suc (length bids2)"
      by (rule length_update_le)
    moreover from assms have "length (mBids s) \<le> unat (mETFOrderBidCount s)"
      by (simp add: depth_ok_def)
    ultimately have l: "length (AList.update (mNextMessageId s) ?new bids2)
        \<le> Suc (unat (mETFOrderBidCount s))"
      unfolding len by linarith
    have d: "distinct (map fst (AList.update (mNextMessageId s) ?new bids2))"
      using dist by (rule distinct_update)
    from a assms c l d show ?thesis
      by (simp add: depth_ok_def)
  qed
qed

lemma apply_status_counts:
  "mETFOrderAskCount (snd (apply_status h True c ord f r s))
     = (if 0 < r then mETFOrderAskCount s else mETFOrderAskCount s - 1)"
  "mETFOrderBidCount (snd (apply_status h True c ord f r s)) = mETFOrderBidCount s"
  "mETFOrderBidCount (snd (apply_status h False c ord f r s))
     = (if 0 < r then mETFOrderBidCount s else mETFOrderBidCount s - 1)"
  "mETFOrderAskCount (snd (apply_status h False c ord f r s)) = mETFOrderAskCount s"
  by (simp_all add: apply_status_def Let_def)

lemma settle_depth:
  fixes n :: uint
  assumes "length al \<le> unat n" and "unat n \<le> 5" and "distinct (map fst al)"
    and "map_of al c = Some ord"
  shows "length (if 0 < r then AList.update c v al else AList.delete c al)
           \<le> unat (if 0 < (r :: ulong) then n else n - 1)"
    and "unat (if 0 < r then n else n - 1) \<le> 5"
    and "distinct (map fst (if 0 < r then AList.update c v al else AList.delete c al))"
proof -
  note less = length_delete_present [OF assms(4)]
  with assms(1) have pos: "0 < unat n"
    by linarith
  note down = count_down [OF pos]
  show "length (if 0 < r then AList.update c v al else AList.delete c al)
           \<le> unat (if 0 < r then n else n - 1)"
    using assms(1) less down length_update_present [OF assms(4), of v] by auto
  show "unat (if 0 < r then n else n - 1) \<le> 5"
    using assms(2) down by auto
  show "distinct (map fst (if 0 < r then AList.update c v al else AList.delete c al))"
    using assms(3) by (simp add: distinct_update distinct_delete)
qed

lemma OrderStatusMessageHandler_depth:
  assumes "depth_ok s"
  shows "depth_ok (snd (OrderStatusMessageHandler h c f r fees s))"
proof (cases "map_of (mAsks s) c")
  case None
  note noask = this
  show ?thesis
  proof (cases "map_of (mBids s) c")
    case None
    with noask assms show ?thesis
      by (simp add: OrderStatusMessageHandler_def)
  next
    case (Some ord)
    from assms have "length (mBids s) \<le> unat (mETFOrderBidCount s)"
      "unat (mETFOrderBidCount s) \<le> 5" "distinct (map fst (mBids s))"
      by (simp_all add: depth_ok_def)
    from settle_depth [OF this Some, of r] assms noask Some show ?thesis
      by (simp add: OrderStatusMessageHandler_def depth_ok_def apply_status_ledger
            apply_status_counts)
  qed
next
  case (Some ord)
  from assms have "length (mAsks s) \<le> unat (mETFOrderAskCount s)"
    "unat (mETFOrderAskCount s) \<le> 5" "distinct (map fst (mAsks s))"
    by (simp_all add: depth_ok_def)
  from settle_depth [OF this Some, of r] assms Some show ?thesis
    by (simp add: OrderStatusMessageHandler_def depth_ok_def apply_status_ledger
          apply_status_counts)
qed

lemma handle_depth:
  assumes "depth_ok s"
  shows "depth_ok (snd (handle h e s))"
proof (cases e)
  case (OrderBook i n ap av bp bv)
  have seq: "depth_ok (s\<lparr>mOrderBookSequence := n\<rparr>)"
    using assms by (simp add: depth_ok_def)
  have "depth_ok (snd (RepriceBuyOrders h bp bv
          (snd (RepriceSellOrders h ap av (s\<lparr>mOrderBookSequence := n\<rparr>)))))"
    by (intro RepriceBuyOrders_depth RepriceSellOrders_depth seq)
  with assms seq show ?thesis
    by (simp add: OrderBook OrderBookMessageHandler_def case_prod_unfold Let_def)
next
  case (OrderStatus c f r fees)
  with assms show ?thesis
    by (simp add: OrderStatusMessageHandler_depth)
next
  case (Error c m)
  with assms show ?thesis
    by (simp add: ErrorMessageHandler_def OrderStatusMessageHandler_depth)
qed (use assms in simp_all)

lemma run_depth:
  assumes "depth_ok s"
  shows "depth_ok (snd (run h es s))"
  using assms
proof (induction es arbitrary: s)
  case Nil
  then show ?case by simp
next
  case (Cons e es)
  from Cons.IH [OF handle_depth [OF Cons.prems, of h e]] show ?case
    by (simp add: case_prod_unfold)
qed

text \<open>
  Claim C2. After any sequence of events delivered to the fresh engine, each ledger
  holds at most 5 orders and each resting-order counter is at most 5. The ledgers
  hold no id twice, so the length of a ledger is the size of the map of the source.
\<close>

theorem resting_orders_capped:
  "length (mAsks (snd (run h es initial))) \<le> 5
   \<and> length (mBids (snd (run h es initial))) \<le> 5
   \<and> unat (mETFOrderAskCount (snd (run h es initial))) \<le> 5
   \<and> unat (mETFOrderBidCount (snd (run h es initial))) \<le> 5
   \<and> distinct (map fst (mAsks (snd (run h es initial))))
   \<and> distinct (map fst (mBids (snd (run h es initial))))"
proof -
  have "depth_ok initial"
    by (simp add: depth_ok_def initial_def)
  then have "depth_ok (snd (run h es initial))"
    by (rule run_depth)
  then show ?thesis
    unfolding depth_ok_def by linarith
qed

theorem resting_orders_capped_witness:
  "length (mAsks (snd (run rtg_limits
       [OrderBook FUTURE 1 (top_only 1000) (top_only 5) (top_only 900) (top_only 5),
        OrderStatus 2 5 5 0] initial))) \<le> 5
   \<and> length (mBids (snd (run rtg_limits
       [OrderBook FUTURE 1 (top_only 1000) (top_only 5) (top_only 900) (top_only 5),
        OrderStatus 2 5 5 0] initial))) \<le> 5
   \<and> unat (mETFOrderAskCount (snd (run rtg_limits
       [OrderBook FUTURE 1 (top_only 1000) (top_only 5) (top_only 900) (top_only 5),
        OrderStatus 2 5 5 0] initial))) \<le> 5
   \<and> unat (mETFOrderBidCount (snd (run rtg_limits
       [OrderBook FUTURE 1 (top_only 1000) (top_only 5) (top_only 900) (top_only 5),
        OrderStatus 2 5 5 0] initial))) \<le> 5
   \<and> distinct (map fst (mAsks (snd (run rtg_limits
       [OrderBook FUTURE 1 (top_only 1000) (top_only 5) (top_only 900) (top_only 5),
        OrderStatus 2 5 5 0] initial))))
   \<and> distinct (map fst (mBids (snd (run rtg_limits
       [OrderBook FUTURE 1 (top_only 1000) (top_only 5) (top_only 900) (top_only 5),
        OrderStatus 2 5 5 0] initial))))"
  by (rule resting_orders_capped)

section \<open>The position limit\<close>

lemma resting_unflag:
  assumes "map unflag ys = map unflag xs"
  shows "resting ys = resting xs"
proof -
  have "resting zs = sum_list (map (\<lambda>t. unat (fst (snd (snd t)))) (map unflag zs))" for zs
    by (induction zs) (simp_all add: resting_def unflag_def)
  then show ?thesis
    by (simp only: assms)
qed

lemma resting_update_le:
  "resting (AList.update k v al) \<le> resting al + unat (remainingVolume v)"
  by (induction al) (auto simp: resting_def)

lemma resting_present:
  "map_of al k = Some ord \<Longrightarrow> unat (remainingVolume ord) \<le> resting al"
  by (induction al) (auto simp: resting_def split: if_splits)

lemma resting_update_present:
  "map_of al k = Some ord \<Longrightarrow>
     resting (AList.update k v al) + unat (remainingVolume ord)
       = resting al + unat (remainingVolume v)"
  by (induction al) (auto simp: resting_def split: if_splits)

lemma resting_delete_le: "resting (AList.delete k al) \<le> resting al"
  by (induction al) (auto simp: resting_def)

lemma resting_delete_present:
  "map_of al k = Some ord \<Longrightarrow>
     resting (AList.delete k al) + unat (remainingVolume ord) \<le> resting al"
proof (induction al)
  case Nil
  then show ?case by simp
next
  case (Cons a al)
  show ?case
  proof (cases "fst a = k")
    case True
    with Cons.prems have "snd a = ord"
      by (cases a) simp
    with True resting_delete_le [of k al] show ?thesis
      by (cases a) (simp add: resting_def)
  next
    case False
    with Cons show ?thesis
      by (cases a) (simp add: resting_def)
  qed
qed

lemma sint_add_small:
  fixes a b :: slong
  assumes "\<bar>sint a\<bar> \<le> 1000" and "\<bar>sint b\<bar> \<le> 1000"
  shows "sint (a + b) = sint a + sint b"
proof -
  have "sint (a + b) = signed_take_bit 63 (sint a + sint b)"
    by (simp add: sint_word_ariths)
  also have "\<dots> = sint a + sint b"
    using assms by (intro signed_take_bit_int_eq_self) auto
  finally show ?thesis .
qed

lemma sint_diff_small:
  fixes a b :: slong
  assumes "\<bar>sint a\<bar> \<le> 1000" and "\<bar>sint b\<bar> \<le> 1000"
  shows "sint (a - b) = sint a - sint b"
proof -
  have "sint (a - b) = signed_take_bit 63 (sint a - sint b)"
    by (simp add: sint_word_ariths)
  also have "\<dots> = sint a - sint b"
    using assms by (intro signed_take_bit_int_eq_self) auto
  finally show ?thesis .
qed

lemma sint_of_small_unat:
  fixes d :: ulong
  assumes "unat d \<le> 1000"
  shows "sint d = int (unat d)"
proof -
  have u: "uint d = int (unat d)"
    by simp
  have "sint d = signed_take_bit 63 (uint d)"
    by (simp add: sint_uint)
  also have "\<dots> = uint d"
  proof (rule signed_take_bit_int_eq_self)
    have "(0::int) \<le> int (unat d)" "- (2 ^ 63) \<le> (0::int)"
      by simp_all
    then show "- (2 ^ 63) \<le> uint d"
      unfolding u by (rule order_trans [rotated])
    from assms have "int (unat d) \<le> 1000"
      by linarith
    moreover have "(1000::int) < 2 ^ 63"
      by simp
    ultimately show "uint d < 2 ^ 63"
      unfolding u by (rule le_less_trans)
  qed
  finally show ?thesis
    unfolding u .
qed

lemma risk_bounds:
  assumes "risk_ok s"
  shows "0 \<le> sint (mETFOrderPositionSell s)" and "sint (mETFOrderPositionSell s) \<le> 200"
    and "0 \<le> sint (mETFOrderPositionBuy s)" and "sint (mETFOrderPositionBuy s) \<le> 200"
    and "\<bar>sint (mETFPosition s)\<bar> \<le> 100"
  using assms unfolding risk_ok_def by linarith+

lemma apply_status_position:
  "mETFPosition (snd (apply_status h True c ord f r s)) = mETFPosition s - (f - filledVolume ord)"
  "mETFPosition (snd (apply_status h False c ord f r s)) = mETFPosition s + (f - filledVolume ord)"
  "mETFOrderPositionSell (snd (apply_status h True c ord f r s))
     = mETFOrderPositionSell s - (remainingVolume ord - r)"
  "mETFOrderPositionBuy (snd (apply_status h True c ord f r s)) = mETFOrderPositionBuy s"
  "mETFOrderPositionBuy (snd (apply_status h False c ord f r s))
     = mETFOrderPositionBuy s - (remainingVolume ord - r)"
  "mETFOrderPositionSell (snd (apply_status h False c ord f r s)) = mETFOrderPositionSell s"
  by (auto simp: apply_status_def Let_def word_gt_0)

lemma RepriceSellOrders_risk:
  assumes "risk_ok s"
  shows "risk_ok (snd (RepriceSellOrders h ap av s))"
proof -
  from RepriceSellOrders_shape [of s h ap av] obtain asks2
    where u: "map unflag asks2 = map unflag (mAsks s)"
      and r: "snd (RepriceSellOrders h ap av s) = s\<lparr>mAsks := asks2\<rparr>
      \<or> (\<not> word_sless (mETFPosition s - mETFOrderPositionSell s - LOT_SIZE) (- POSITION_LIMIT)
         \<and> \<not> MAX_ORDER_DEPTH \<le> mETFOrderAskCount s
         \<and> snd (RepriceSellOrders h ap av s)
             = s\<lparr>mNextMessageId := mNextMessageId s + 1,
                 mETFOrderAskCount := mETFOrderAskCount s + 1,
                 mETFOrderPositionSell := mETFOrderPositionSell s + LOT_SIZE,
                 mAsks := AList.update (mNextMessageId s)
                            \<lparr>price = newAskPrice_of h ap, remainingVolume = LOT_SIZE,
                             filledVolume = 0, cancelling = False\<rparr> asks2\<rparr>)"
    by blast
  note same = resting_unflag [OF u]
  note b = risk_bounds [OF assms]
  from r show ?thesis
  proof
    assume "snd (RepriceSellOrders h ap av s) = s\<lparr>mAsks := asks2\<rparr>"
    with assms same show ?thesis
      by (simp add: risk_ok_def)
  next
    assume a: "\<not> word_sless (mETFPosition s - mETFOrderPositionSell s - LOT_SIZE) (- POSITION_LIMIT)
         \<and> \<not> MAX_ORDER_DEPTH \<le> mETFOrderAskCount s
         \<and> snd (RepriceSellOrders h ap av s)
             = s\<lparr>mNextMessageId := mNextMessageId s + 1,
                 mETFOrderAskCount := mETFOrderAskCount s + 1,
                 mETFOrderPositionSell := mETFOrderPositionSell s + LOT_SIZE,
                 mAsks := AList.update (mNextMessageId s)
                            \<lparr>price = newAskPrice_of h ap, remainingVolume = LOT_SIZE,
                             filledVolume = 0, cancelling = False\<rparr> asks2\<rparr>"
    let ?new = "\<lparr>price = newAskPrice_of h ap, remainingVolume = LOT_SIZE,
                 filledVolume = 0, cancelling = False\<rparr>"
    have lot: "sint LOT_SIZE = 10" "unat LOT_SIZE = 10" and lim: "sint (- POSITION_LIMIT) = - 100"
      by (simp_all add: LOT_SIZE_def POSITION_LIMIT_def)
    have d1: "sint (mETFPosition s - mETFOrderPositionSell s)
                = sint (mETFPosition s) - sint (mETFOrderPositionSell s)"
      using b by (intro sint_diff_small) linarith+
    have d2: "sint (mETFPosition s - mETFOrderPositionSell s - LOT_SIZE)
                = sint (mETFPosition s) - sint (mETFOrderPositionSell s) - 10"
      using b lot d1 sint_diff_small [of "mETFPosition s - mETFOrderPositionSell s" LOT_SIZE]
      by linarith
    from a have gate: "- 100 \<le> sint (mETFPosition s) - sint (mETFOrderPositionSell s) - 10"
      by (simp add: word_sless_alt d2 lim)
    have up: "sint (mETFOrderPositionSell s + LOT_SIZE) = sint (mETFOrderPositionSell s) + 10"
      using b lot sint_add_small [of "mETFOrderPositionSell s" LOT_SIZE] by linarith
    have "resting (AList.update (mNextMessageId s) ?new asks2) \<le> resting asks2 + 10"
      using resting_update_le [of "mNextMessageId s" ?new asks2] by (simp add: lot)
    with same have rest: "int (resting (AList.update (mNextMessageId s) ?new asks2))
        \<le> int (resting (mAsks s)) + 10"
      by linarith
    from a have "risk_ok (snd (RepriceSellOrders h ap av s))
        = risk_ok (s\<lparr>mNextMessageId := mNextMessageId s + 1,
                 mETFOrderAskCount := mETFOrderAskCount s + 1,
                 mETFOrderPositionSell := mETFOrderPositionSell s + LOT_SIZE,
                 mAsks := AList.update (mNextMessageId s) ?new asks2\<rparr>)"
      by simp
    also have "\<dots>"
      using assms gate rest unfolding risk_ok_def by (simp add: up)
    finally show ?thesis .
  qed
qed

lemma RepriceBuyOrders_risk:
  assumes "risk_ok s"
  shows "risk_ok (snd (RepriceBuyOrders h bp bv s))"
proof -
  from RepriceBuyOrders_shape [of s h bp bv] obtain bids2
    where u: "map unflag bids2 = map unflag (mBids s)"
      and r: "snd (RepriceBuyOrders h bp bv s) = s\<lparr>mBids := bids2\<rparr>
      \<or> (\<not> word_sless POSITION_LIMIT (mETFPosition s + mETFOrderPositionBuy s + LOT_SIZE)
         \<and> \<not> MAX_ORDER_DEPTH \<le> mETFOrderBidCount s
         \<and> snd (RepriceBuyOrders h bp bv s)
             = s\<lparr>mNextMessageId := mNextMessageId s + 1,
                 mETFOrderBidCount := mETFOrderBidCount s + 1,
                 mETFOrderPositionBuy := mETFOrderPositionBuy s + LOT_SIZE,
                 mBids := AList.update (mNextMessageId s)
                            \<lparr>price = newBidPrice_of bp, remainingVolume = LOT_SIZE,
                             filledVolume = 0, cancelling = False\<rparr> bids2\<rparr>)"
    by blast
  note same = resting_unflag [OF u]
  note b = risk_bounds [OF assms]
  from r show ?thesis
  proof
    assume "snd (RepriceBuyOrders h bp bv s) = s\<lparr>mBids := bids2\<rparr>"
    with assms same show ?thesis
      by (simp add: risk_ok_def)
  next
    assume a: "\<not> word_sless POSITION_LIMIT (mETFPosition s + mETFOrderPositionBuy s + LOT_SIZE)
         \<and> \<not> MAX_ORDER_DEPTH \<le> mETFOrderBidCount s
         \<and> snd (RepriceBuyOrders h bp bv s)
             = s\<lparr>mNextMessageId := mNextMessageId s + 1,
                 mETFOrderBidCount := mETFOrderBidCount s + 1,
                 mETFOrderPositionBuy := mETFOrderPositionBuy s + LOT_SIZE,
                 mBids := AList.update (mNextMessageId s)
                            \<lparr>price = newBidPrice_of bp, remainingVolume = LOT_SIZE,
                             filledVolume = 0, cancelling = False\<rparr> bids2\<rparr>"
    let ?new = "\<lparr>price = newBidPrice_of bp, remainingVolume = LOT_SIZE,
                 filledVolume = 0, cancelling = False\<rparr>"
    have lot: "sint LOT_SIZE = 10" "unat LOT_SIZE = 10" and lim: "sint POSITION_LIMIT = 100"
      by (simp_all add: LOT_SIZE_def POSITION_LIMIT_def)
    have d1: "sint (mETFPosition s + mETFOrderPositionBuy s)
                = sint (mETFPosition s) + sint (mETFOrderPositionBuy s)"
      using b by (intro sint_add_small) linarith+
    have d2: "sint (mETFPosition s + mETFOrderPositionBuy s + LOT_SIZE)
                = sint (mETFPosition s) + sint (mETFOrderPositionBuy s) + 10"
      using b lot d1 sint_add_small [of "mETFPosition s + mETFOrderPositionBuy s" LOT_SIZE]
      by linarith
    from a have gate: "sint (mETFPosition s) + sint (mETFOrderPositionBuy s) + 10 \<le> 100"
      by (simp add: word_sless_alt d2 lim)
    have up: "sint (mETFOrderPositionBuy s + LOT_SIZE) = sint (mETFOrderPositionBuy s) + 10"
      using b lot sint_add_small [of "mETFOrderPositionBuy s" LOT_SIZE] by linarith
    have "resting (AList.update (mNextMessageId s) ?new bids2) \<le> resting bids2 + 10"
      using resting_update_le [of "mNextMessageId s" ?new bids2] by (simp add: lot)
    with same have rest: "int (resting (AList.update (mNextMessageId s) ?new bids2))
        \<le> int (resting (mBids s)) + 10"
      by linarith
    from a have "risk_ok (snd (RepriceBuyOrders h bp bv s))
        = risk_ok (s\<lparr>mNextMessageId := mNextMessageId s + 1,
                 mETFOrderBidCount := mETFOrderBidCount s + 1,
                 mETFOrderPositionBuy := mETFOrderPositionBuy s + LOT_SIZE,
                 mBids := AList.update (mNextMessageId s) ?new bids2\<rparr>)"
      by simp
    also have "\<dots>"
      using assms gate rest unfolding risk_ok_def by (simp add: up)
    finally show ?thesis .
  qed
qed

lemma settle_arith:
  fixes pos vol :: slong and f fl rm r :: ulong
  assumes "\<bar>sint pos\<bar> \<le> 100" and "sint vol \<le> 200"
    and "fl \<le> f" and "r \<le> rm" and "f - fl \<le> rm - r" and "int (unat rm) \<le> sint vol"
  shows "sint (pos - (f - fl)) = sint pos - int (unat (f - fl))"
    and "sint (pos + (f - fl)) = sint pos + int (unat (f - fl))"
    and "sint (vol - (rm - r)) = sint vol - int (unat (rm - r))"
    and "unat (f - fl) \<le> unat (rm - r)"
    and "unat (rm - r) + unat r = unat rm"
proof -
  have rr: "unat (rm - r) = unat rm - unat r" and le: "unat r \<le> unat rm"
    using assms(4) by (simp_all add: unat_sub word_le_nat_alt)
  from rr le show "unat (rm - r) + unat r = unat rm"
    by linarith
  from assms(5) show dr: "unat (f - fl) \<le> unat (rm - r)"
    by (simp add: word_le_nat_alt)
  from assms(2,6) have "unat rm \<le> 200"
    by linarith
  with rr dr have small: "unat (rm - r) \<le> 200" "unat (f - fl) \<le> 200"
    by linarith+
  then have sd: "sint (f - fl) = int (unat (f - fl))" and sr: "sint (rm - r) = int (unat (rm - r))"
    by (intro sint_of_small_unat; linarith)+
  from assms(6) have "0 \<le> sint vol"
    by linarith
  with assms(2) have v: "\<bar>sint vol\<bar> \<le> 1000"
    by linarith
  from assms(1) have p: "\<bar>sint pos\<bar> \<le> 1000"
    by linarith
  from small have d: "\<bar>sint (f - fl)\<bar> \<le> 1000" "\<bar>sint (rm - r)\<bar> \<le> 1000"
    unfolding sd sr by linarith+
  show "sint (pos - (f - fl)) = sint pos - int (unat (f - fl))"
    using sint_diff_small [OF p d(1)] by (simp only: sd)
  show "sint (pos + (f - fl)) = sint pos + int (unat (f - fl))"
    using sint_add_small [OF p d(1)] by (simp only: sd)
  show "sint (vol - (rm - r)) = sint vol - int (unat (rm - r))"
    using sint_diff_small [OF v d(2)] by (simp only: sr)
qed

lemma settle_resting:
  assumes "map_of al c = Some ord" and "unat rr + unat r = unat (remainingVolume ord)"
  shows "resting (if 0 < r
                  then AList.update c (ord\<lparr>remainingVolume := r, filledVolume := f\<rparr>) al
                  else AList.delete c al) + unat rr \<le> resting al"
proof (cases "0 < r")
  case True
  from resting_update_present [OF assms(1), of "ord\<lparr>remainingVolume := r, filledVolume := f\<rparr>"]
  have "resting (AList.update c (ord\<lparr>remainingVolume := r, filledVolume := f\<rparr>) al)
          + unat (remainingVolume ord) = resting al + unat r"
    by simp
  with assms(2) True show ?thesis
    by simp
next
  case False
  then have "r = 0"
    by (simp add: word_gt_0)
  with assms(2) resting_delete_present [OF assms(1)] show ?thesis
    by simp
qed

lemma apply_status_risk_sell:
  assumes "risk_ok s" and "map_of (mAsks s) c = Some ord" and "coherent ord f r"
  shows "risk_ok (snd (apply_status h True c ord f r s))"
proof -
  note b = risk_bounds [OF assms(1)]
  from assms(1) resting_present [OF assms(2)]
  have cover: "int (unat (remainingVolume ord)) \<le> sint (mETFOrderPositionSell s)"
    unfolding risk_ok_def by linarith
  from assms(3) have c: "filledVolume ord \<le> f" "r \<le> remainingVolume ord"
    "f - filledVolume ord \<le> remainingVolume ord - r"
    by (simp_all add: coherent_def)
  note a = settle_arith [OF b(5) b(2) c cover]
  note rest = settle_resting [OF assms(2) a(5), of f]
  let ?s' = "snd (apply_status h True c ord f r s)"
  have p': "sint (mETFPosition ?s') = sint (mETFPosition s) - int (unat (f - filledVolume ord))"
    by (simp only: apply_status_position a(1))
  have v': "sint (mETFOrderPositionSell ?s')
              = sint (mETFOrderPositionSell s) - int (unat (remainingVolume ord - r))"
    by (simp only: apply_status_position a(3))
  have o': "mETFOrderPositionBuy ?s' = mETFOrderPositionBuy s" "mBids ?s' = mBids s"
    by (simp_all only: apply_status_position apply_status_ledger)
  have l': "resting (mAsks ?s') + unat (remainingVolume ord - r) \<le> resting (mAsks s)"
    using rest by (simp only: apply_status_ledger)
  show ?thesis
    unfolding risk_ok_def p' v' o'
    using assms(1) [unfolded risk_ok_def] a(4) l' by linarith
qed

lemma apply_status_risk_buy:
  assumes "risk_ok s" and "map_of (mBids s) c = Some ord" and "coherent ord f r"
  shows "risk_ok (snd (apply_status h False c ord f r s))"
proof -
  note b = risk_bounds [OF assms(1)]
  from assms(1) resting_present [OF assms(2)]
  have cover: "int (unat (remainingVolume ord)) \<le> sint (mETFOrderPositionBuy s)"
    unfolding risk_ok_def by linarith
  from assms(3) have c: "filledVolume ord \<le> f" "r \<le> remainingVolume ord"
    "f - filledVolume ord \<le> remainingVolume ord - r"
    by (simp_all add: coherent_def)
  note a = settle_arith [OF b(5) b(4) c cover]
  note rest = settle_resting [OF assms(2) a(5), of f]
  let ?s' = "snd (apply_status h False c ord f r s)"
  have p': "sint (mETFPosition ?s') = sint (mETFPosition s) + int (unat (f - filledVolume ord))"
    by (simp only: apply_status_position a(2))
  have v': "sint (mETFOrderPositionBuy ?s')
              = sint (mETFOrderPositionBuy s) - int (unat (remainingVolume ord - r))"
    by (simp only: apply_status_position a(3))
  have o': "mETFOrderPositionSell ?s' = mETFOrderPositionSell s" "mAsks ?s' = mAsks s"
    by (simp_all only: apply_status_position apply_status_ledger)
  have l': "resting (mBids ?s') + unat (remainingVolume ord - r) \<le> resting (mBids s)"
    using rest by (simp only: apply_status_ledger)
  show ?thesis
    unfolding risk_ok_def p' v' o'
    using assms(1) [unfolded risk_ok_def] a(4) l' by linarith
qed

lemma handle_risk:
  assumes "risk_ok s" and "coherent_event s e"
  shows "risk_ok (snd (handle h e s))"
proof (cases e)
  case (OrderBook i n ap av bp bv)
  have seq: "risk_ok (s\<lparr>mOrderBookSequence := n\<rparr>)"
    using assms(1) by (simp add: risk_ok_def)
  have "risk_ok (snd (RepriceBuyOrders h bp bv
          (snd (RepriceSellOrders h ap av (s\<lparr>mOrderBookSequence := n\<rparr>)))))"
    by (intro RepriceBuyOrders_risk RepriceSellOrders_risk seq)
  with assms(1) seq show ?thesis
    by (simp add: OrderBook OrderBookMessageHandler_def case_prod_unfold Let_def)
next
  case (OrderStatus c f r fees)
  with assms show ?thesis
    by (auto simp: OrderStatusMessageHandler_def apply_status_risk_sell apply_status_risk_buy
          split: option.splits)
next
  case (Error c m)
  with assms show ?thesis
    by (auto simp: ErrorMessageHandler_def OrderStatusMessageHandler_def
          apply_status_risk_sell apply_status_risk_buy split: option.splits)
qed (use assms in simp_all)

lemma run_risk:
  assumes "risk_ok s" and "coherent_run h s es"
  shows "risk_ok (snd (run h es s))"
  using assms
proof (induction es arbitrary: s)
  case Nil
  then show ?case by simp
next
  case (Cons e es)
  from Cons.prems have "risk_ok (snd (handle h e s))" "coherent_run h (snd (handle h e s)) es"
    by (simp_all add: handle_risk)
  from Cons.IH [OF this] show ?case
    by (simp add: case_prod_unfold)
qed

text \<open>
  Claim C1, as amended. In every state the fresh engine reaches through book updates,
  coherent order-status updates and order-error events for orders with no recorded
  fill, the confirmed position plus the committed buy volume is at most 100 and the
  confirmed position minus the committed sell volume is at least -100.
\<close>

theorem position_limit_kept:
  assumes "coherent_run h initial es"
  shows "sint (mETFPosition (snd (run h es initial)))
           + sint (mETFOrderPositionBuy (snd (run h es initial))) \<le> 100
       \<and> - 100 \<le> sint (mETFPosition (snd (run h es initial)))
                    - sint (mETFOrderPositionSell (snd (run h es initial)))"
proof -
  have "risk_ok initial"
    by (simp add: risk_ok_def initial_def resting_def)
  from run_risk [OF this assms] show ?thesis
    unfolding risk_ok_def by linarith
qed

theorem position_limit_kept_witness:
  "coherent_run rtg_limits initial
     [OrderBook FUTURE 1 (top_only 1000) (top_only 5) (top_only 900) (top_only 5),
      OrderStatus 2 5 5 0]
   \<and> sint (mETFPosition (snd (run rtg_limits
        [OrderBook FUTURE 1 (top_only 1000) (top_only 5) (top_only 900) (top_only 5),
         OrderStatus 2 5 5 0] initial)))
       + sint (mETFOrderPositionBuy (snd (run rtg_limits
        [OrderBook FUTURE 1 (top_only 1000) (top_only 5) (top_only 900) (top_only 5),
         OrderStatus 2 5 5 0] initial))) \<le> 100
   \<and> - 100 \<le> sint (mETFPosition (snd (run rtg_limits
        [OrderBook FUTURE 1 (top_only 1000) (top_only 5) (top_only 900) (top_only 5),
         OrderStatus 2 5 5 0] initial)))
       - sint (mETFOrderPositionSell (snd (run rtg_limits
        [OrderBook FUTURE 1 (top_only 1000) (top_only 5) (top_only 900) (top_only 5),
         OrderStatus 2 5 5 0] initial)))"
proof -
  have first: "snd (OrderBookMessageHandler rtg_limits FUTURE 1
      (top_only 1000) (top_only 5) (top_only 900) (top_only 5) initial) = two_quotes"
    using two_quotes_reached by (simp add: case_prod_unfold)
  have "coherent_event two_quotes (OrderStatus 2 5 5 0)"
    by (simp add: two_quotes_def quote_def coherent_def)
  then have run: "coherent_run rtg_limits initial
     [OrderBook FUTURE 1 (top_only 1000) (top_only 5) (top_only 900) (top_only 5),
      OrderStatus 2 5 5 0]"
    by (simp add: first)
  from run position_limit_kept [OF run] show ?thesis
    by (rule conjI)
qed

text \<open>
  Claim C1 as stated fails: the claim quantifies over any sequence of events, and the
  engine takes the volumes of a status update as they come. After one book update
  places buy order 2, a status update reporting 200 lots filled and 10 remaining puts
  the confirmed position at 200 with 10 lots still committed.
\<close>

theorem position_limit_broken_by_status:
  "\<not> (sint (mETFPosition (snd (run rtg_limits
          [OrderBook FUTURE 1 (top_only 1000) (top_only 5) (top_only 900) (top_only 5),
           OrderStatus 2 200 10 0] initial)))
        + sint (mETFOrderPositionBuy (snd (run rtg_limits
          [OrderBook FUTURE 1 (top_only 1000) (top_only 5) (top_only 900) (top_only 5),
           OrderStatus 2 200 10 0] initial))) \<le> 100)"
proof -
  have "OrderStatusMessageHandler rtg_limits 2 200 10 0 two_quotes
          = ([SendHedgeOrder 3 SELL 100 200],
             two_quotes\<lparr>mETFPosition := 200, mNextMessageId := 4,
               mBids := [(2, \<lparr>price = 800, remainingVolume = 10, filledVolume = 200,
                             cancelling = False\<rparr>)]\<rparr>)"
    by (simp add: OrderStatusMessageHandler_def apply_status_def two_quotes_def quote_def
          rtg_limits_def MIN_BID_NEARST_TICK_def TICK_SIZE_IN_CENTS_def Let_def)
  then have "snd (run rtg_limits
          [OrderBook FUTURE 1 (top_only 1000) (top_only 5) (top_only 900) (top_only 5),
           OrderStatus 2 200 10 0] initial)
        = two_quotes\<lparr>mETFPosition := 200, mNextMessageId := 4,
               mBids := [(2, \<lparr>price = 800, remainingVolume = 10, filledVolume = 200,
                             cancelling = False\<rparr>)]\<rparr>"
    using two_quotes_reached by (simp add: case_prod_unfold)
  then show ?thesis
    by (simp add: two_quotes_def)
qed

text \<open>
  Why the amended claim leaves out error events for part-filled orders. The run
  \<open>to_the_limit\<close> is coherent and ends in \<open>near_limit\<close>; the error for sell order 1
  (5 lots filled) then gives the 5 lots back to the confirmed position, which exceeds
  the limit together with the resting buy order: 95 + 10.
\<close>

lemma near_limit_reached:
  "coherent_run rtg_limits initial to_the_limit"
  "snd (run rtg_limits to_the_limit initial) = near_limit"
  by code_simp+

lemma position_limit_broken_by_error:
  "sint (mETFPosition (snd (ErrorMessageHandler rtg_limits 1 ''rejected'' near_limit)))
     + sint (mETFOrderPositionBuy (snd (ErrorMessageHandler rtg_limits 1 ''rejected'' near_limit)))
     = 105"
  by (simp add: near_limit_def quote_def
        ErrorMessageHandler_def OrderStatusMessageHandler_def apply_status_def Let_def word_gt_0)

section \<open>A repeated best ask\<close>

lemma mark_none: "filter p xs = [] \<Longrightarrow> map (mark p) xs = xs"
  by (induction xs) (auto simp: mark_def split: if_splits)

lemma exists_live: "(\<exists>e \<in> set xs. live_at t e) = (filter (live_at t) xs \<noteq> [])"
  by (simp add: filter_empty_conv)


lemma RepriceBuyOrders_settled:
  assumes "buy_settled bp s"
  shows "RepriceBuyOrders h bp bv s = ([], s)"
proof -
  from assms have none: "filter (bid_pulled (newBidPrice_of bp)) (mBids s) = []"
    and room: "\<not> MAX_ORDER_DEPTH - 1 \<le> mETFOrderBidCount s"
    and gate: "filter (live_at (newBidPrice_of bp)) (mBids s) \<noteq> []
         \<or> word_sless POSITION_LIMIT (mETFPosition s + mETFOrderPositionBuy s + LOT_SIZE)
         \<or> MAX_ORDER_DEPTH \<le> mETFOrderBidCount s
         \<or> at0 bp = 0"
    by (simp_all add: buy_settled_def)
  let ?l = "snd (snd (bid_loop (newBidPrice_of bp) (mBids s)
              \<lparr>smallestOrderId = 0, smallestOrder = MAX_ORDER h, bidAlreadyExists = False\<rparr>))"
  have ex: "bidAlreadyExists ?l = (filter (live_at (newBidPrice_of bp)) (mBids s) \<noteq> [])"
    by (simp add: bid_loop_exists exists_live)
  from gate have g: "bidAlreadyExists ?l
         \<or> word_sless POSITION_LIMIT (mETFPosition s + mETFOrderPositionBuy s + LOT_SIZE)
         \<or> MAX_ORDER_DEPTH \<le> mETFOrderBidCount s
         \<or> at0 bp = 0"
    unfolding ex .
  have "RepriceBuyOrders h bp bv s = ([], s\<lparr>mBids := mBids s\<rparr>)"
    unfolding RepriceBuyOrders_def Let_def case_prod_unfold bid_loop_ledger bid_loop_sent
      mark_none [OF none] none
    using g room by simp
  then show ?thesis by simp
qed

lemma pulled_after_mark:
  assumes "\<And>e. p e \<Longrightarrow> \<not> p (fst e, (snd e)\<lparr>cancelling := True\<rparr>)"
  shows "filter p (map (mark p) xs) = []"
  using assms by (induction xs) (auto simp: mark_def)


lemma bid_pulled_after_mark: "filter (bid_pulled t) (map (mark (bid_pulled t)) xs) = []"
  by (rule pulled_after_mark) (simp add: bid_pulled_def)


lemma live_after_bid_mark:
  "filter (live_at t) (map (mark (bid_pulled t)) xs) = filter (live_at t) xs"
  by (induction xs) (auto simp: mark_def live_at_def bid_pulled_def)

lemma filter_update_none:
  "filter p al = [] \<Longrightarrow> \<not> p (k, v) \<Longrightarrow> filter p (AList.update k v al) = []"
  by (induction al) (auto split: if_splits)

lemma filter_update_only:
  "filter p al = [] \<Longrightarrow> p (k, v) \<Longrightarrow> filter p (AList.update k v al) = [(k, v)]"
  by (induction al) (auto split: if_splits)

lemma count_below_room:
  fixes c :: uint
  assumes "\<not> MAX_ORDER_DEPTH - 1 \<le> c + 1" and "\<not> MAX_ORDER_DEPTH \<le> c"
  shows "\<not> MAX_ORDER_DEPTH - 1 \<le> c"
proof -
  have four: "MAX_ORDER_DEPTH - 1 = 4"
    by (simp add: MAX_ORDER_DEPTH_def)
  from assms(1) have "unat (c + 1) < 4"
    unfolding four by (simp add: word_le_nat_alt)
  with count_up(1) [OF assms(2)] have "unat c < 4"
    by linarith
  then show ?thesis
    unfolding four by (simp add: word_le_nat_alt)
qed



lemma RepriceBuyOrders_below_room:
  assumes "\<not> MAX_ORDER_DEPTH - 1 \<le> mETFOrderBidCount s"
  shows "snd (RepriceBuyOrders h bp bv s)
     = (if filter (live_at (newBidPrice_of bp)) (mBids s) \<noteq> []
           \<or> word_sless POSITION_LIMIT (mETFPosition s + mETFOrderPositionBuy s + LOT_SIZE)
           \<or> MAX_ORDER_DEPTH \<le> mETFOrderBidCount s
           \<or> at0 bp = 0
        then s\<lparr>mBids := map (mark (bid_pulled (newBidPrice_of bp))) (mBids s)\<rparr>
        else s\<lparr>mNextMessageId := mNextMessageId s + 1,
               mETFOrderBidCount := mETFOrderBidCount s + 1,
               mETFOrderPositionBuy := mETFOrderPositionBuy s + LOT_SIZE,
               mBids := AList.update (mNextMessageId s)
                          \<lparr>price = newBidPrice_of bp, remainingVolume = LOT_SIZE,
                           filledVolume = 0, cancelling = False\<rparr>
                          (map (mark (bid_pulled (newBidPrice_of bp))) (mBids s))\<rparr>)"
  unfolding RepriceBuyOrders_def Let_def case_prod_unfold bid_loop_ledger bid_loop_exists
    exists_live
  using assms by simp

lemma RepriceBuyOrders_room_before:
  assumes "\<not> MAX_ORDER_DEPTH - 1 \<le> mETFOrderBidCount (snd (RepriceBuyOrders h bp bv s))"
  shows "\<not> MAX_ORDER_DEPTH - 1 \<le> mETFOrderBidCount s"
proof -
  from RepriceBuyOrders_shape [of s h bp bv] obtain bids2
    where "snd (RepriceBuyOrders h bp bv s) = s\<lparr>mBids := bids2\<rparr>
      \<or> (\<not> word_sless POSITION_LIMIT (mETFPosition s + mETFOrderPositionBuy s + LOT_SIZE)
         \<and> \<not> MAX_ORDER_DEPTH \<le> mETFOrderBidCount s
         \<and> snd (RepriceBuyOrders h bp bv s)
             = s\<lparr>mNextMessageId := mNextMessageId s + 1,
                 mETFOrderBidCount := mETFOrderBidCount s + 1,
                 mETFOrderPositionBuy := mETFOrderPositionBuy s + LOT_SIZE,
                 mBids := AList.update (mNextMessageId s)
                            \<lparr>price = newBidPrice_of bp, remainingVolume = LOT_SIZE,
                             filledVolume = 0, cancelling = False\<rparr> bids2\<rparr>)"
    by blast
  then show ?thesis
  proof
    assume "snd (RepriceBuyOrders h bp bv s) = s\<lparr>mBids := bids2\<rparr>"
    with assms show ?thesis by simp
  next
    assume a: "\<not> word_sless POSITION_LIMIT (mETFPosition s + mETFOrderPositionBuy s + LOT_SIZE)
         \<and> \<not> MAX_ORDER_DEPTH \<le> mETFOrderBidCount s
         \<and> snd (RepriceBuyOrders h bp bv s)
             = s\<lparr>mNextMessageId := mNextMessageId s + 1,
                 mETFOrderBidCount := mETFOrderBidCount s + 1,
                 mETFOrderPositionBuy := mETFOrderPositionBuy s + LOT_SIZE,
                 mBids := AList.update (mNextMessageId s)
                            \<lparr>price = newBidPrice_of bp, remainingVolume = LOT_SIZE,
                             filledVolume = 0, cancelling = False\<rparr> bids2\<rparr>"
    with assms have "\<not> MAX_ORDER_DEPTH - 1 \<le> mETFOrderBidCount s + 1"
      by simp
    with a show ?thesis
      using count_below_room by blast
  qed
qed
lemma RepriceBuyOrders_settles:
  assumes "\<not> MAX_ORDER_DEPTH - 1 \<le> mETFOrderBidCount (snd (RepriceBuyOrders h bp bv s))"
  shows "buy_settled bp (snd (RepriceBuyOrders h bp bv s))"
proof -
  let ?t = "newBidPrice_of bp"
  let ?new = "\<lparr>price = ?t, remainingVolume = LOT_SIZE, filledVolume = 0, cancelling = False\<rparr>"
  let ?bids1 = "map (mark (bid_pulled ?t)) (mBids s)"
  note before = RepriceBuyOrders_room_before [OF assms]
  note eq = RepriceBuyOrders_below_room [OF before, of h bp bv]
  show ?thesis
  proof (cases "filter (live_at ?t) (mBids s) \<noteq> []
           \<or> word_sless POSITION_LIMIT (mETFPosition s + mETFOrderPositionBuy s + LOT_SIZE)
           \<or> MAX_ORDER_DEPTH \<le> mETFOrderBidCount s
           \<or> at0 bp = 0")
    case True
    then have s1: "snd (RepriceBuyOrders h bp bv s) = s\<lparr>mBids := ?bids1\<rparr>"
      unfolding eq by (simp only: if_True)
    show ?thesis
      unfolding s1 buy_settled_def using True before
      by (simp add: bid_pulled_after_mark live_after_bid_mark)
  next
    case False
    then have s1: "snd (RepriceBuyOrders h bp bv s)
        = s\<lparr>mNextMessageId := mNextMessageId s + 1,
               mETFOrderBidCount := mETFOrderBidCount s + 1,
               mETFOrderPositionBuy := mETFOrderPositionBuy s + LOT_SIZE,
               mBids := AList.update (mNextMessageId s) ?new ?bids1\<rparr>"
      unfolding eq by (simp only: if_False)
    from False have "filter (live_at ?t) ?bids1 = []"
      by (simp add: live_after_bid_mark)
    then have live: "filter (live_at ?t) (AList.update (mNextMessageId s) ?new ?bids1)
        = [(mNextMessageId s, ?new)]"
      by (rule filter_update_only) (simp add: live_at_def)
    have pulled: "filter (bid_pulled ?t) (AList.update (mNextMessageId s) ?new ?bids1) = []"
      by (rule filter_update_none) (simp_all add: bid_pulled_after_mark bid_pulled_def)
    from assms have "\<not> MAX_ORDER_DEPTH - 1 \<le> mETFOrderBidCount s + 1"
      unfolding s1 by simp
    with live pulled show ?thesis
      unfolding s1 buy_settled_def by simp
  qed
qed


lemma live_mark_le:
  "length (filter (live_at t) (map (mark p) xs)) \<le> length (filter (live_at t) xs)"
  by (induction xs) (auto simp: mark_def live_at_def)

lemma live_map_entry_le:
  "length (filter (live_at t) (AList.map_entry k (\<lambda>order. order\<lparr>cancelling := True\<rparr>) xs))
     \<le> length (filter (live_at t) xs)"
  by (induction xs) (auto simp: live_at_def)

lemma live_flag_if_le:
  "length (filter (live_at t)
       (if M then AList.map_entry k (\<lambda>order. order\<lparr>cancelling := True\<rparr>) xs else xs))
     \<le> length (filter (live_at t) xs)"
  by (cases M) (simp_all add: live_map_entry_le)

lemma live_update_other:
  "\<not> live_at t (k, v) \<Longrightarrow>
     length (filter (live_at t) (AList.update k v al)) \<le> length (filter (live_at t) al)"
  by (induction al) auto

lemma live_update_same:
  "map_of al c = Some ord \<Longrightarrow> live_at t (c, v) = live_at t (c, ord) \<Longrightarrow>
     length (filter (live_at t) (AList.update c v al)) = length (filter (live_at t) al)"
  by (induction al) (auto split: if_splits)

lemma live_delete_le:
  "length (filter (live_at t) (AList.delete k al)) \<le> length (filter (live_at t) al)"
  by (induction al) auto

lemma RepriceSellOrders_asks:
  "\<exists>asks2. (\<forall>t. length (filter (live_at t) asks2) \<le> length (filter (live_at t) (mAsks s)))
     \<and> (mAsks (snd (RepriceSellOrders h ap av s)) = asks2
        \<or> filter (live_at (newAskPrice_of h ap)) (mAsks s) = []
          \<and> mAsks (snd (RepriceSellOrders h ap av s))
              = AList.update (mNextMessageId s)
                  \<lparr>price = newAskPrice_of h ap, remainingVolume = LOT_SIZE,
                   filledVolume = 0, cancelling = False\<rparr> asks2)"
proof -
  let ?l = "snd (snd (ask_loop (newAskPrice_of h ap) (mAsks s)
              \<lparr>largestOrderId = 0, largestOrder = MIN_ORDER, askAlreadyExists = False\<rparr>))"
  let ?asks1 = "map (mark (ask_pulled (newAskPrice_of h ap))) (mAsks s)"
  let ?M = "largestOrderId ?l \<noteq> 0 \<and> \<not> cancelling (largestOrder ?l)
              \<and> MAX_ORDER_DEPTH - 1 \<le> mETFOrderAskCount s"
  let ?asks2 = "if ?M
      then AList.map_entry (largestOrderId ?l) (\<lambda>order. order\<lparr>cancelling := True\<rparr>) ?asks1
      else ?asks1"
  let ?G = "askAlreadyExists ?l
      \<or> word_sless (mETFPosition s - mETFOrderPositionSell s - LOT_SIZE) (- POSITION_LIMIT)
      \<or> MAX_ORDER_DEPTH \<le> mETFOrderAskCount s \<or> at0 ap = 0"
  have le: "length (filter (live_at t) ?asks2) \<le> length (filter (live_at t) (mAsks s))" for t
  proof -
    have "length (filter (live_at t) ?asks2) \<le> length (filter (live_at t) ?asks1)"
      by (rule live_flag_if_le)
    also have "\<dots> \<le> length (filter (live_at t) (mAsks s))"
      by (rule live_mark_le)
    finally show ?thesis .
  qed
  show ?thesis
  proof (cases ?G)
    case True
    have "snd (RepriceSellOrders h ap av s) = s\<lparr>mAsks := ?asks2\<rparr>"
      unfolding RepriceSellOrders_def Let_def case_prod_unfold ask_loop_ledger
      by (simp only: True if_True snd_conv)
    then have "mAsks (snd (RepriceSellOrders h ap av s)) = ?asks2"
      by simp
    with le show ?thesis by blast
  next
    case False
    then have "\<not> askAlreadyExists ?l"
      by blast
    then have none: "filter (live_at (newAskPrice_of h ap)) (mAsks s) = []"
      by (simp add: ask_loop_exists exists_live)
    have "snd (RepriceSellOrders h ap av s)
             = s\<lparr>mAsks := ?asks2\<rparr>\<lparr>mNextMessageId := mNextMessageId s + 1,
                 mETFOrderAskCount := mETFOrderAskCount s + 1,
                 mETFOrderPositionSell := mETFOrderPositionSell s + LOT_SIZE,
                 mAsks := AList.update (mNextMessageId s)
                            \<lparr>price = newAskPrice_of h ap, remainingVolume = LOT_SIZE,
                             filledVolume = 0, cancelling = False\<rparr> ?asks2\<rparr>"
      unfolding RepriceSellOrders_def Let_def case_prod_unfold ask_loop_ledger
      by (simp only: False if_False snd_conv)
    then have "mAsks (snd (RepriceSellOrders h ap av s))
             = AList.update (mNextMessageId s)
                            \<lparr>price = newAskPrice_of h ap, remainingVolume = LOT_SIZE,
                             filledVolume = 0, cancelling = False\<rparr> ?asks2"
      by simp
    with le none show ?thesis by blast
  qed
qed

lemma RepriceSellOrders_one_live:
  assumes "one_live_per_price (mAsks s)"
  shows "one_live_per_price (mAsks (snd (RepriceSellOrders h ap av s)))"
proof -
  let ?T = "newAskPrice_of h ap"
  let ?new = "\<lparr>price = ?T, remainingVolume = LOT_SIZE, filledVolume = 0, cancelling = False\<rparr>"
  from RepriceSellOrders_asks [of s h ap av] obtain asks2
    where le: "\<And>t. length (filter (live_at t) asks2) \<le> length (filter (live_at t) (mAsks s))"
      and r: "mAsks (snd (RepriceSellOrders h ap av s)) = asks2
        \<or> filter (live_at ?T) (mAsks s) = []
          \<and> mAsks (snd (RepriceSellOrders h ap av s)) = AList.update (mNextMessageId s) ?new asks2"
    by blast
  from assms have one: "length (filter (live_at t) (mAsks s)) \<le> 1" for t
    by (simp add: one_live_per_price_def)
  from r show ?thesis
  proof
    assume a: "mAsks (snd (RepriceSellOrders h ap av s)) = asks2"
    show ?thesis
      unfolding a one_live_per_price_def using le one le_trans by blast
  next
    assume a: "filter (live_at ?T) (mAsks s) = []
          \<and> mAsks (snd (RepriceSellOrders h ap av s)) = AList.update (mNextMessageId s) ?new asks2"
    have "length (filter (live_at t) (AList.update (mNextMessageId s) ?new asks2)) \<le> 1" for t
    proof (cases "t = ?T")
      case True
      from a le [of ?T] have "filter (live_at ?T) asks2 = []"
        by simp
      then have "filter (live_at ?T) (AList.update (mNextMessageId s) ?new asks2)
          = [(mNextMessageId s, ?new)]"
        by (rule filter_update_only) (simp add: live_at_def)
      then show ?thesis
        by (simp add: True)
    next
      case False
      then have "\<not> live_at t (mNextMessageId s, ?new)"
        by (auto simp: live_at_def)
      from live_update_other [OF this, of asks2] le [of t] one [of t] show ?thesis
        by linarith
    qed
    with a show ?thesis
      by (simp add: one_live_per_price_def)
  qed
qed

lemma apply_status_one_live:
  assumes "one_live_per_price (mAsks s)"
    and "isSellOrder \<Longrightarrow> map_of (mAsks s) c = Some ord"
  shows "one_live_per_price (mAsks (snd (apply_status h isSellOrder c ord f r s)))"
proof (cases isSellOrder)
  case False
  with assms(1) show ?thesis
    by (simp add: apply_status_ledger)
next
  case True
  note present = assms(2) [OF True]
  from assms(1) have one: "length (filter (live_at t) (mAsks s)) \<le> 1" for t
    by (simp add: one_live_per_price_def)
  have "length (filter (live_at t) (mAsks (snd (apply_status h True c ord f r s)))) \<le> 1" for t
  proof (cases "0 < r")
    case True
    have "live_at t (c, ord\<lparr>remainingVolume := r, filledVolume := f\<rparr>) = live_at t (c, ord)"
      by (simp add: live_at_def)
    from live_update_same [OF present this] one [of t] True show ?thesis
      by (simp add: apply_status_ledger)
  next
    case False
    with live_delete_le [of t c "mAsks s"] one [of t] show ?thesis
      by (simp add: apply_status_ledger)
  qed
  with True show ?thesis
    by (simp add: one_live_per_price_def)
qed

lemma handle_one_live:
  assumes "one_live_per_price (mAsks s)"
  shows "one_live_per_price (mAsks (snd (handle h e s)))"
proof (cases e)
  case (OrderBook i n ap av bp bv)
  have "one_live_per_price (mAsks (s\<lparr>mOrderBookSequence := n\<rparr>))"
    using assms by simp
  then have "one_live_per_price (mAsks (snd (RepriceSellOrders h ap av (s\<lparr>mOrderBookSequence := n\<rparr>))))"
    by (rule RepriceSellOrders_one_live)
  with assms show ?thesis
    by (simp add: OrderBook OrderBookMessageHandler_def case_prod_unfold Let_def
          RepriceBuyOrders_frame)
next
  case (OrderStatus c f r fees)
  with assms show ?thesis
    by (auto simp: OrderStatusMessageHandler_def apply_status_one_live split: option.splits)
next
  case (Error c m)
  with assms show ?thesis
    by (auto simp: ErrorMessageHandler_def OrderStatusMessageHandler_def apply_status_one_live
          split: option.splits)
qed (use assms in simp_all)

lemma reachable_one_live_per_price:
  "one_live_per_price (mAsks (snd (run h es initial)))"
proof -
  have "one_live_per_price (mAsks s) \<Longrightarrow> one_live_per_price (mAsks (snd (run h es s)))" for s
  proof (induction es arbitrary: s)
    case Nil
    then show ?case by simp
  next
    case (Cons e es)
    from Cons.IH [OF handle_one_live [OF Cons.prems, of h e]] show ?case
      by (simp add: case_prod_unfold)
  qed
  moreover have "one_live_per_price (mAsks initial)"
    by (simp add: one_live_per_price_def initial_def)
  ultimately show ?thesis .
qed




lemma below_four:
  fixes c :: uint
  assumes "c < 4"
  shows "\<not> MAX_ORDER_DEPTH - 1 \<le> c" and "\<not> MAX_ORDER_DEPTH \<le> c"
proof -
  from assms have "unat c < 4"
    by (simp add: word_less_nat_alt)
  then show "\<not> MAX_ORDER_DEPTH - 1 \<le> c" "\<not> MAX_ORDER_DEPTH \<le> c"
    by (simp_all add: MAX_ORDER_DEPTH_def word_le_nat_alt)
qed

text \<open>Fewer than 4 resting buy orders counted after an update: the buy side is at rest.\<close>

lemma buy_side_at_rest:
  assumes "mOrderBookSequence s < n"
    and "mETFOrderBidCount (snd (OrderBookMessageHandler h FUTURE n ap av bp bv s)) < 4"
  shows "RepriceBuyOrders h bp bv (snd (OrderBookMessageHandler h FUTURE n ap av bp bv s))
           = ([], snd (OrderBookMessageHandler h FUTURE n ap av bp bv s))"
proof -
  let ?sA = "snd (RepriceSellOrders h ap av (s\<lparr>mOrderBookSequence := n\<rparr>))"
  have after: "snd (OrderBookMessageHandler h FUTURE n ap av bp bv s)
      = snd (RepriceBuyOrders h bp bv ?sA)"
    by (simp add: OrderBookMessageHandler_fresh [OF assms(1)])
  from assms(2) have "\<not> MAX_ORDER_DEPTH - 1 \<le> mETFOrderBidCount (snd (RepriceBuyOrders h bp bv ?sA))"
    unfolding after by (rule below_four)
  then have "buy_settled bp (snd (RepriceBuyOrders h bp bv ?sA))"
    by (rule RepriceBuyOrders_settles)
  then show ?thesis
    unfolding after by (rule RepriceBuyOrders_settled)
qed







lemma rising_asks_counted:
  "mETFOrderAskCount (snd (run rtg_limits (take 4 rising_then_flat) initial)) = 4"
  "filter (live_at (1300 + 100)) (mAsks (snd (run rtg_limits (take 4 rising_then_flat) initial)))
     = [(4, quote 1400)]"
  "fst (run rtg_limits (drop 4 rising_then_flat)
          (snd (run rtg_limits (take 4 rising_then_flat) initial)))
     = [SendCancelOrder 4, SendInsertOrder 5 SELL 1400 10 GOOD_FOR_DAY, SendCancelOrder 5]"
  by code_simp+


text \<open>
  The conditions of the amended claim are needed, each for its own reason.

  The buy side must be at rest. In \<open>falling_bids\<close> the best ask is 1000 throughout and the
  sell side holds its one quote at 1100, but the best bid falls three times; three
  cancelled buy orders still count. When the last update is repeated, the make-room rule
  of the buy pass cancels the buy order at the target, and the repeat after that
  inserts another.

  There must be room under the position limit when no sell order is live at the target.
  In \<open>sold_out\<close> ten sell orders are filled one after the other; the position is -100,
  and the best ask 1000, repeated three times, gets no quote.
\<close>

lemma falling_bids_not_at_rest:
  "mETFOrderAskCount (snd (run rtg_limits falling_bids initial)) = 1"
  "mETFOrderBidCount (snd (run rtg_limits falling_bids initial)) = 4"
  "filter (live_at 1100) (mAsks (snd (run rtg_limits falling_bids initial))) = [(1, quote 1100)]"
  "fst (handle rtg_limits (touch_update 5 1000 1700) (snd (run rtg_limits falling_bids initial)))
     = [SendCancelOrder 5]"
  "fst (run rtg_limits [touch_update 5 1000 1700, touch_update 6 1000 1700]
          (snd (run rtg_limits falling_bids initial)))
     = [SendCancelOrder 5, SendInsertOrder 6 BUY 1600 10 GOOD_FOR_DAY]"
  by code_simp+

lemma sold_out_gets_no_quote:
  "coherent_run rtg_limits initial sold_out"
  "sint (mETFPosition (snd (run rtg_limits sold_out initial))) = - 100"
  "mAsks (snd (run rtg_limits sold_out initial)) = []"
  by code_simp+

text \<open>
  What the conclusion leaves open. A live sell order priced above the target stays
  live next to the one at the target: the first update below quotes at 2000, the best
  ask then drops to 1000 and is repeated. And a sell order that is already live at the
  target is kept as it is, with the volume earlier fills left it: 5 lots below.
\<close>

lemma higher_quote_stays:
  "mAsks (snd (run rtg_limits
       [touch_update 1 1900 0, touch_update 2 1000 0, touch_update 3 1000 0,
        touch_update 4 1000 0] initial))
     = [(1, quote 2000), (2, quote 1100)]"
  by code_simp

lemma part_filled_quote_kept:
  "mAsks (snd (run rtg_limits
       [touch_update 1 1000 900, OrderStatus 1 5 5 0, touch_update 2 1000 900,
        touch_update 3 1000 900] initial))
     = [(1, \<lparr>price = 1100, remainingVolume = 5, filledVolume = 5, cancelling = False\<rparr>)]"
  by code_simp

section \<open>The fill volume, as the handler reads it\<close>

text \<open>
  What the handler does with the fill volume, for every tracked order: a hedge order
  is sent exactly when the reported fill volume differs from the stored one, for the
  unsigned difference, and the position moves by that difference modulo \<open>2 ^ 64\<close>.
\<close>

lemma apply_status_hedge:
  "fst (apply_status h isSellOrder c ord f r s)
     = (if f = filledVolume ord then []
        else [SendHedgeOrder (mNextMessageId s) (if isSellOrder then BUY else SELL)
                (if isSellOrder then MAX_ASK_NEAREST_TICK h else MIN_BID_NEARST_TICK h)
                (f - filledVolume ord)])"
  by (simp add: apply_status_def Let_def word_gt_0)

lemma status_with_larger_fill:
  assumes "map_of (mAsks s) c = None" and "map_of (mBids s) c = Some ord"
    and "filledVolume ord < f"
  shows "fst (OrderStatusMessageHandler h c f r fees s)
           = [SendHedgeOrder (mNextMessageId s) SELL (MIN_BID_NEARST_TICK h) (f - filledVolume ord)]"
    and "mETFPosition (snd (OrderStatusMessageHandler h c f r fees s))
           = mETFPosition s + (f - filledVolume ord)"
  using assms
  by (auto simp: OrderStatusMessageHandler_def apply_status_hedge apply_status_position)

lemma status_with_equal_fill:
  assumes "map_of (mAsks s) c = Some ord \<or> map_of (mAsks s) c = None \<and> map_of (mBids s) c = Some ord"
    and "f = filledVolume ord"
  shows "fst (OrderStatusMessageHandler h c f r fees s) = []"
    and "mETFPosition (snd (OrderStatusMessageHandler h c f r fees s)) = mETFPosition s"
  using assms
  by (auto simp: OrderStatusMessageHandler_def apply_status_hedge apply_status_position)

text \<open>
  An error for a tracked order with no recorded fill does what claim C3 says: no
  request, the position as it was, the order erased, the resting count down by one and
  the committed volume down by the stored remaining volume (here on the buy side).
\<close>

lemma error_on_unfilled_order:
  assumes "c \<noteq> 0" and "map_of (mAsks s) c = None" and "map_of (mBids s) c = Some ord"
    and "filledVolume ord = 0"
  shows "ErrorMessageHandler h c m s
           = ([], s\<lparr>mETFOrderPositionBuy := mETFOrderPositionBuy s - remainingVolume ord,
                   mETFOrderBidCount := mETFOrderBidCount s - 1,
                   mBids := AList.delete c (mBids s)\<rparr>)"
  using assms
  by (simp add: ErrorMessageHandler_def OrderStatusMessageHandler_def apply_status_def Let_def)

end
